theory Spec2Isabelle
  imports Main
begin

section \<open>Errors and values\<close>

text \<open>
  The exceptions that the modelled part of \<^verbatim>\<open>work.py\<close> can raise.
  \<open>InsufficientParser\<close> is the repository's own exception class; \<open>Exception\<close> is the
  plain \<^verbatim>\<open>raise Exception(...)\<close> of the flattener; the others are raised by Python
  builtins (\<^verbatim>\<open>int\<close> of a malformed string, a missing dictionary key, an
  ordering comparison with \<^verbatim>\<open>None\<close>, a list index out of range, \<^verbatim>\<open>next\<close> on an
  exhausted iterator, a failed \<^verbatim>\<open>assert\<close>, a method called on \<^verbatim>\<open>None\<close>).
\<close>

datatype error =
    InsufficientParser
  | ValueError
  | KeyError
  | TypeError
  | IndexError
  | StopIteration
  | AssertionError
  | AttributeError
  | Exception

text \<open>
  What an attribute lookup returns and what the shared context holds: \<^verbatim>\<open>None\<close>, an
  integer (the result of the cast \<^verbatim>\<open>int\<close>) or a string (an attribute read with no cast).
\<close>

datatype atom = ANone | AInt int | AStr string

fun truthy :: "atom \<Rightarrow> bool" where
  "truthy ANone = False"
| "truthy (AInt n) = (n \<noteq> 0)"
| "truthy (AStr s) = (s \<noteq> [])"

section \<open>Strings\<close>

text \<open>
  A Python string is modelled as a HOL \<open>string\<close>; the character with code \<open>n\<close> stands
  for the code point U+00\<open>n\<close>, so the model covers the texts whose code points are below
  U+0100. The character classes of the source are cut to that range.
\<close>

definition cp :: "char \<Rightarrow> nat" where
  "cp c = of_char c"

definition in_range :: "nat \<Rightarrow> nat \<Rightarrow> char \<Rightarrow> bool" where
  "in_range lo hi c = (lo \<le> cp c \<and> cp c \<le> hi)"

text \<open>\<^verbatim>\<open>str.isspace\<close> on one character, which is what \<^verbatim>\<open>str.strip()\<close> removes.\<close>

definition is_py_space :: "char \<Rightarrow> bool" where
  "is_py_space c = (in_range 9 13 c \<or> in_range 28 32 c \<or> cp c = 133 \<or> cp c = 160)"

definition strip :: "string \<Rightarrow> string" where
  "strip s = rev (dropWhile is_py_space (rev (dropWhile is_py_space s)))"

text \<open>\<^verbatim>\<open>str.lower()\<close>: below U+0100 the cased capitals are A-Z, U+00C0-U+00D6 and U+00D8-U+00DE.\<close>

definition lower_char :: "char \<Rightarrow> char" where
  "lower_char c =
     (if in_range 65 90 c \<or> in_range 192 214 c \<or> in_range 216 222 c
      then char_of (cp c + 32) else c)"

definition lower :: "string \<Rightarrow> string" where
  "lower s = map lower_char s"

definition startswith :: "string \<Rightarrow> string \<Rightarrow> bool" where
  "startswith s p = (take (length p) s = p)"

text \<open>\<^verbatim>\<open>s.split(sep)\<close> for a one-character separator; the result is never empty.\<close>

fun split :: "char \<Rightarrow> string \<Rightarrow> string list" where
  "split sep [] = [[]]"
| "split sep (c # cs) =
     (if c = sep then [] # split sep cs
      else (case split sep cs of [] \<Rightarrow> [[c]] | w # ws \<Rightarrow> (c # w) # ws))"

text \<open>\<^verbatim>\<open>str(i)\<close> for a non-negative integer, as the f-strings of the flattener format an index.\<close>

definition digit_char :: "nat \<Rightarrow> char" where
  "digit_char d = char_of (48 + d)"

fun str_nat :: "nat \<Rightarrow> string" where
  "str_nat n = (if n < 10 then [digit_char n] else str_nat (n div 10) @ [digit_char (n mod 10)])"

declare str_nat.simps [simp del]

text \<open>
  \<^verbatim>\<open>int(s)\<close> on a string: surrounding whitespace is dropped, one sign is allowed, and the
  rest is a non-empty run of decimal digits in which single underscores may separate
  digits. Anything else raises \<^verbatim>\<open>ValueError\<close>, and so does a string of more than 4300
  digits (the interpreter's default limit). The whitespace that \<^verbatim>\<open>int\<close> drops is not
  that of \<^verbatim>\<open>str.strip()\<close>: the separators U+001C to U+001F are not part of it.
\<close>

definition is_int_space :: "char \<Rightarrow> bool" where
  "is_int_space c = (in_range 9 13 c \<or> cp c = 32 \<or> cp c = 133 \<or> cp c = 160)"

definition int_strip :: "string \<Rightarrow> string" where
  "int_strip s = rev (dropWhile is_int_space (rev (dropWhile is_int_space s)))"

definition MAX_STR_DIGITS :: nat where
  "MAX_STR_DIGITS = 4300"

definition is_digit :: "char \<Rightarrow> bool" where
  "is_digit c = in_range 48 57 c"

definition digit_val :: "char \<Rightarrow> nat" where
  "digit_val c = cp c - 48"

fun int_body :: "nat \<Rightarrow> string \<Rightarrow> nat option" where
  "int_body acc [] = Some acc"
| "int_body acc [c] = (if is_digit c then Some (acc * 10 + digit_val c) else None)"
| "int_body acc (c # d # ds) =
     (if is_digit c then int_body (acc * 10 + digit_val c) (d # ds)
      else if c = CHR ''_'' \<and> is_digit d then int_body (acc * 10 + digit_val d) ds
      else None)"

definition int_unsigned :: "string \<Rightarrow> nat option" where
  "int_unsigned u =
     (case u of [] \<Rightarrow> None
      | c # cs \<Rightarrow> if is_digit c then int_body (digit_val c) cs else None)"

definition py_int :: "string \<Rightarrow> error + int" where
  "py_int s =
     (let t = int_strip s;
          neg = (case t of [] \<Rightarrow> False | c # _ \<Rightarrow> c = CHR ''-'');
          u = (case t of [] \<Rightarrow> []
               | c # cs \<Rightarrow> if c = CHR ''-'' \<or> c = CHR ''+'' then cs else t)
      in case int_unsigned u of
           None \<Rightarrow> Inl ValueError
         | Some n \<Rightarrow>
             if MAX_STR_DIGITS < length (filter is_digit u) then Inl ValueError
             else Inr (if neg then - int n else int n))"

text \<open>The cast \<^verbatim>\<open>int\<close> as the resolver receives it: it yields an atom.\<close>

definition cast_int :: "string \<Rightarrow> error + atom" where
  "cast_int s = (case py_int s of Inl e \<Rightarrow> Inl e | Inr n \<Rightarrow> Inr (AInt n))"

section \<open>The styled tree\<close>

text \<open>
  A BeautifulSoup element is a tag (name, attribute dictionary, children) or a piece of
  text. The parent link of the source is modelled by carrying, with every tag, the chain
  of its ancestors, nearest first; the last of the chain is the document object itself,
  whose parent is \<^verbatim>\<open>None\<close>.
\<close>

datatype node =
    Tag string "string \<rightharpoonup> string" "node list"
  | NavigableString string

type_synonym elem = "node \<times> node list"

text \<open>\<^verbatim>\<open>tag.get(name)\<close>.\<close>

fun get :: "node \<Rightarrow> string \<Rightarrow> string option" where
  "get (Tag n a cs) k = a k"
| "get (NavigableString s) k = None"

fun tag_name :: "node \<Rightarrow> string" where
  "tag_name (Tag n a cs) = n"
| "tag_name (NavigableString s) = []"

text \<open>\<^verbatim>\<open>tag.text\<close>: the strings below the tag, concatenated in document order.\<close>

fun text_of :: "node \<Rightarrow> string" where
  "text_of (NavigableString s) = s"
| "text_of (Tag n a cs) = concat (map text_of cs)"

text \<open>The tags at and below a node in document order, each with its ancestor chain.\<close>

fun tags_at :: "node list \<Rightarrow> node \<Rightarrow> elem list" where
  "tags_at anc (NavigableString s) = []"
| "tags_at anc (Tag n a cs) =
     (Tag n a cs, anc) # concat (map (tags_at (Tag n a cs # anc)) cs)"

text \<open>What \<^verbatim>\<open>soup.find\<close> and \<^verbatim>\<open>soup.find_all\<close> walk over: the tags strictly below the document.\<close>

fun descendants :: "node \<Rightarrow> elem list" where
  "descendants (NavigableString s) = []"
| "descendants (Tag n a cs) = concat (map (tags_at [Tag n a cs]) cs)"

section \<open>Attribute resolver\<close>

text \<open>
  \<open>priv_tag_value\<close> is \<^verbatim>\<open>_tag_value(tag, name, cast)\<close> of the source. With no cast the
  raw attribute is returned. With a cast the result is \<^verbatim>\<open>value is not None and cast(value) or None\<close>: a cast that raises
  propagates, and a cast result that is falsy becomes \<^verbatim>\<open>None\<close>.
\<close>

definition priv_tag_value :: "node \<Rightarrow> string \<Rightarrow> (string \<Rightarrow> error + atom) option \<Rightarrow> error + atom" where
  "priv_tag_value tag nm cast =
     (case cast of
        None \<Rightarrow> (case get tag nm of None \<Rightarrow> Inr ANone | Some v \<Rightarrow> Inr (AStr v))
      | Some c \<Rightarrow>
          (case get tag nm of
             None \<Rightarrow> Inr ANone
           | Some v \<Rightarrow>
               (case c v of
                  Inl e \<Rightarrow> Inl e
                | Inr r \<Rightarrow> Inr (if truthy r then r else ANone))))"

text \<open>
  The loop of \<^verbatim>\<open>tag_value\<close>, entered with \<^verbatim>\<open>result = None\<close>: read the tag, step to the
  parent, stop when there is no parent or the result is not \<^verbatim>\<open>None\<close>.
\<close>

fun tag_value_loop :: "node \<Rightarrow> node list \<Rightarrow> string \<Rightarrow> (string \<Rightarrow> error + atom) option \<Rightarrow> error + atom" where
  "tag_value_loop tag [] attribute cast = priv_tag_value tag attribute cast"
| "tag_value_loop tag (p # ps) attribute cast =
     (case priv_tag_value tag attribute cast of
        Inl e \<Rightarrow> Inl e
      | Inr r \<Rightarrow> if r = ANone then tag_value_loop p ps attribute cast else Inr r)"

definition tag_value :: "elem \<Rightarrow> string \<Rightarrow> bool \<Rightarrow> (string \<Rightarrow> error + atom) option \<Rightarrow> error + atom" where
  "tag_value el attribute inherited cast =
     (if \<not> inherited then priv_tag_value (fst el) attribute cast
      else tag_value_loop (fst el) (snd el) attribute cast)"

text \<open>
  \<^verbatim>\<open>tag_rect\<close>: the four geometry attributes are resolved side by side. One round of the
  loop body evaluates \<^verbatim>\<open>result[i] or _tag_value(tag, a, int)\<close> for left, top, width and
  height in that order; the right operand is only evaluated when the left one is falsy.
  The fields of the result are \<^verbatim>\<open>x\<close>, \<^verbatim>\<open>y\<close>, \<^verbatim>\<open>w\<close> and \<^verbatim>\<open>h\<close> in the source.
\<close>

record rect =
  rect_x :: atom
  rect_y :: atom
  rect_w :: atom
  rect_h :: atom

definition or_tag_value :: "atom \<Rightarrow> node \<Rightarrow> string \<Rightarrow> error + atom" where
  "or_tag_value r tag nm = (if truthy r then Inr r else priv_tag_value tag nm (Some cast_int))"

definition tag_rect_body :: "rect \<Rightarrow> node \<Rightarrow> error + rect" where
  "tag_rect_body r tag =
     (case or_tag_value (rect_x r) tag ''left'' of Inl e \<Rightarrow> Inl e | Inr r0 \<Rightarrow>
     (case or_tag_value (rect_y r) tag ''top'' of Inl e \<Rightarrow> Inl e | Inr r1 \<Rightarrow>
     (case or_tag_value (rect_w r) tag ''width'' of Inl e \<Rightarrow> Inl e | Inr r2 \<Rightarrow>
     (case or_tag_value (rect_h r) tag ''height'' of Inl e \<Rightarrow> Inl e | Inr r3 \<Rightarrow>
      Inr \<lparr>rect_x = r0, rect_y = r1, rect_w = r2, rect_h = r3\<rparr>))))"

definition any_none :: "rect \<Rightarrow> bool" where
  "any_none r = (rect_x r = ANone \<or> rect_y r = ANone \<or> rect_w r = ANone \<or> rect_h r = ANone)"

fun tag_rect_loop :: "rect \<Rightarrow> node \<Rightarrow> node list \<Rightarrow> error + rect" where
  "tag_rect_loop r tag [] = (if any_none r then tag_rect_body r tag else Inr r)"
| "tag_rect_loop r tag (p # ps) =
     (if any_none r
      then (case tag_rect_body r tag of Inl e \<Rightarrow> Inl e | Inr r' \<Rightarrow> tag_rect_loop r' p ps)
      else Inr r)"

definition tag_rect :: "elem \<Rightarrow> error + rect" where
  "tag_rect el = tag_rect_loop \<lparr>rect_x = ANone, rect_y = ANone, rect_w = ANone, rect_h = ANone\<rparr> (fst el) (snd el)"

section \<open>What the resolver is specified to return\<close>


text \<open>
  With a cast: the nearest value along the chain whose cast is truthy, \<^verbatim>\<open>None\<close> if there
  is none.
\<close>

fun nearest_truthy :: "(string \<Rightarrow> error + atom) \<Rightarrow> node list \<Rightarrow> string \<Rightarrow> atom" where
  "nearest_truthy c [] k = ANone"
| "nearest_truthy c (t # ts) k =
     (case get t k of
        None \<Rightarrow> nearest_truthy c ts k
      | Some v \<Rightarrow>
          (case c v of
             Inl e \<Rightarrow> nearest_truthy c ts k
           | Inr r \<Rightarrow> if truthy r then r else nearest_truthy c ts k))"

text \<open>No value of the attribute along the chain makes the cast raise.\<close>

definition cast_ok :: "(string \<Rightarrow> error + atom) \<Rightarrow> node list \<Rightarrow> string \<Rightarrow> bool" where
  "cast_ok c chain k = list_all (\<lambda>t. case get t k of None \<Rightarrow> True | Some v \<Rightarrow> \<not> isl (c v)) chain"

text \<open>
  For the bounding box: a component that is already resolved is kept, an unresolved one
  takes the value found further up.
\<close>

definition pick :: "atom \<Rightarrow> atom \<Rightarrow> atom" where
  "pick a b = (if a = ANone then b else a)"

definition rect_picks :: "rect \<Rightarrow> node list \<Rightarrow> rect" where
  "rect_picks r chain =
     \<lparr>rect_x = pick (rect_x r) (nearest_truthy cast_int chain ''left''),
      rect_y = pick (rect_y r) (nearest_truthy cast_int chain ''top''),
      rect_w = pick (rect_w r) (nearest_truthy cast_int chain ''width''),
      rect_h = pick (rect_h r) (nearest_truthy cast_int chain ''height'')\<rparr>"

text \<open>Every component of the partial result is \<^verbatim>\<open>None\<close> or truthy.\<close>

definition rinv :: "rect \<Rightarrow> bool" where
  "rinv r =
     ((rect_x r = ANone \<or> truthy (rect_x r)) \<and> (rect_y r = ANone \<or> truthy (rect_y r)) \<and>
      (rect_w r = ANone \<or> truthy (rect_w r)) \<and> (rect_h r = ANone \<or> truthy (rect_h r)))"

subsection \<open>Example documents for the resolver\<close>

text \<open>A span with no styling of its own inside a block that sets \<^verbatim>\<open>font-size\<close> to 12.\<close>

definition ex_doc_inherit :: node where
  "ex_doc_inherit =
     Tag ''[document]'' Map.empty
       [Tag ''div'' [''font-size'' \<mapsto> ''12'']
          [Tag ''span'' [''page'' \<mapsto> ''1''] [NavigableString ''abc'']]]"

text \<open>A span whose own \<^verbatim>\<open>top\<close> is \<^verbatim>\<open>"0"\<close> inside a block whose \<^verbatim>\<open>top\<close> is \<^verbatim>\<open>"7"\<close>.\<close>

definition ex_doc_zero :: node where
  "ex_doc_zero =
     Tag ''[document]'' Map.empty
       [Tag ''div'' [''top'' \<mapsto> ''7'', ''left'' \<mapsto> ''3'', ''width'' \<mapsto> ''40'', ''height'' \<mapsto> ''9'']
          [Tag ''span'' [''top'' \<mapsto> ''0'', ''page'' \<mapsto> ''1''] [NavigableString ''abc'']]]"



section \<open>Regular expressions\<close>

text \<open>
  The patterns of the source are built from character classes, sequence, alternation,
  \<^verbatim>\<open>?\<close>, \<^verbatim>\<open>+\<close> and capturing groups. \<open>rx_match r s\<close> lists what is left of \<open>s\<close> after each
  way of matching \<open>r\<close> at its start, in the order in which a backtracking matcher tries
  them (greedy repetition first), so the head of the list is the match that \<^verbatim>\<open>re\<close>
  reports. A repetition runs at most \<open>length s\<close> rounds, which is every round there is
  when its body consumes a character, as the bodies of all patterns here do.
\<close>

datatype rx =
    Cls "char \<Rightarrow> bool"
  | Seq rx rx
  | Alt rx rx
  | Opt rx
  | Plus rx
  | Grp rx

fun plus_iter :: "(string \<Rightarrow> string list) \<Rightarrow> nat \<Rightarrow> string \<Rightarrow> string list" where
  "plus_iter f 0 s = []"
| "plus_iter f (Suc n) s = concat (map (\<lambda>r. plus_iter f n r @ [r]) (f s))"

primrec rx_match :: "rx \<Rightarrow> string \<Rightarrow> string list" where
  "rx_match (Cls p) = (\<lambda>s. case s of [] \<Rightarrow> [] | c # cs \<Rightarrow> if p c then [cs] else [])"
| "rx_match (Seq a b) = (\<lambda>s. concat (map (rx_match b) (rx_match a s)))"
| "rx_match (Alt a b) = (\<lambda>s. rx_match a s @ rx_match b s)"
| "rx_match (Opt a) = (\<lambda>s. rx_match a s @ [s])"
| "rx_match (Plus a) = (\<lambda>s. plus_iter (rx_match a) (length s) s)"
| "rx_match (Grp a) = rx_match a"

text \<open>The number of capturing groups, which is \<^verbatim>\<open>len(m.groups())\<close> for every match \<open>m\<close>.\<close>

primrec ngroups :: "rx \<Rightarrow> nat" where
  "ngroups (Cls p) = 0"
| "ngroups (Seq a b) = ngroups a + ngroups b"
| "ngroups (Alt a b) = ngroups a + ngroups b"
| "ngroups (Opt a) = ngroups a"
| "ngroups (Plus a) = ngroups a"
| "ngroups (Grp a) = Suc (ngroups a)"

text \<open>\<^verbatim>\<open>pattern.match(s)\<close>: \<open>None\<close> when there is no match at the start, else \<^verbatim>\<open>s[m.end():]\<close>.\<close>

definition re_match :: "rx \<Rightarrow> string \<Rightarrow> string option" where
  "re_match r s = (case rx_match r s of [] \<Rightarrow> None | rest # _ \<Rightarrow> Some rest)"

text \<open>\<^verbatim>\<open>pattern.search(s)\<close>: the match at the leftmost position that has one.\<close>

fun re_search :: "rx \<Rightarrow> string \<Rightarrow> string option" where
  "re_search r [] = re_match r []"
| "re_search r (c # cs) =
     (case re_match r (c # cs) of Some rest \<Rightarrow> Some rest | None \<Rightarrow> re_search r cs)"

subsection \<open>The character classes of the source, below U+0100\<close>

definition RE_UPPERCASE :: "char \<Rightarrow> bool" where
  "RE_UPPERCASE c = (in_range 65 90 c \<or> in_range 192 214 c \<or> in_range 216 222 c)"

definition RE_LOWERCASE :: "char \<Rightarrow> bool" where
  "RE_LOWERCASE c =
     (in_range 97 122 c \<or> cp c = 170 \<or> cp c = 181 \<or> cp c = 186 \<or> in_range 223 246 c \<or>
      in_range 248 255 c)"

text \<open>\<^verbatim>\<open>[A-Za-z\<close> followed by the two classes above without their ASCII ranges.\<close>

definition RE_LETTER :: "char \<Rightarrow> bool" where
  "RE_LETTER c =
     (in_range 65 90 c \<or> in_range 97 122 c \<or>
      in_range 192 214 c \<or> in_range 216 222 c \<or>
      cp c = 170 \<or> cp c = 181 \<or> cp c = 186 \<or> in_range 223 246 c \<or> in_range 248 255 c)"

definition RE_MODIFIER :: "char \<Rightarrow> bool" where
  "RE_MODIFIER c =
     (cp c = 94 \<or> cp c = 96 \<or> cp c = 168 \<or> cp c = 175 \<or> cp c = 180 \<or> cp c = 184)"

definition RE_DASH :: "char \<Rightarrow> bool" where
  "RE_DASH c = (cp c = 45)"

definition RE_SPACE :: "char \<Rightarrow> bool" where
  "RE_SPACE c = (cp c = 32 \<or> cp c = 160)"

text \<open>\<^verbatim>\<open>RE_WHITESPACE\<close> is one or more of newline, tab and the space class.\<close>

definition RE_WHITESPACE_char :: "char \<Rightarrow> bool" where
  "RE_WHITESPACE_char c = (cp c = 10 \<or> cp c = 9 \<or> RE_SPACE c)"

definition RE_NAME_COMPONENT :: "char \<Rightarrow> bool" where
  "RE_NAME_COMPONENT c = (RE_LETTER c \<or> RE_MODIFIER c \<or> cp c = 46 \<or> RE_DASH c)"

text \<open>A comma or a middle dot (U+00B7), captured, followed by one or more spaces.\<close>

definition RE_PREFIX_SKIP_body :: rx where
  "RE_PREFIX_SKIP_body =
     Seq (Grp (Alt (Cls (\<lambda>c. cp c = 44)) (Cls (\<lambda>c. cp c = 183)))) (Plus (Cls RE_SPACE))"

text \<open>
  \<^verbatim>\<open>(?:PREFIX)?(NC+(SPACE NC+)+)\<close>, where the non-capturing group is plain grouping.
\<close>

definition RE_AUTHOR_NAME :: rx where
  "RE_AUTHOR_NAME =
     Seq (Opt RE_PREFIX_SKIP_body)
         (Grp (Seq (Plus (Cls RE_NAME_COMPONENT))
                   (Plus (Grp (Seq (Cls RE_SPACE) (Plus (Cls RE_NAME_COMPONENT)))))))"

text \<open>
  \<^verbatim>\<open>RE_PREFIX_SKIP\<close> is the prefix pattern behind \<^verbatim>\<open>^\<close>; searching with it can only match
  at the start of the string, so \<^verbatim>\<open>RE_PREFIX_SKIP.search(s)\<close> is a match at the start.
\<close>

definition RE_PREFIX_SKIP_search :: "string \<Rightarrow> string option" where
  "RE_PREFIX_SKIP_search s = re_match RE_PREFIX_SKIP_body s"

section \<open>Text normalisation\<close>

text \<open>\<^verbatim>\<open>RE_WHITESPACE.sub(" ", s)\<close>: every maximal run of the class becomes one space.\<close>

function sub_whitespace :: "string \<Rightarrow> string" where
  "sub_whitespace [] = []"
| "sub_whitespace (c # cs) =
     (if RE_WHITESPACE_char c then CHR '' '' # sub_whitespace (dropWhile RE_WHITESPACE_char cs)
      else c # sub_whitespace cs)"
  by pat_completeness auto
termination
  by (relation "measure length") (auto simp: less_Suc_eq_le length_dropWhile_le)

definition normalize_str :: "string \<Rightarrow> string" where
  "normalize_str content = sub_whitespace (strip content)"

section \<open>The shared context and comparisons on its values\<close>

type_synonym "context" = "string \<rightharpoonup> atom"

text \<open>Code-point order on strings, as Python compares them.\<close>

fun str_less :: "string \<Rightarrow> string \<Rightarrow> bool" where
  "str_less [] [] = False"
| "str_less [] (d # ds) = True"
| "str_less (c # cs) [] = False"
| "str_less (c # cs) (d # ds) = (cp c < cp d \<or> (cp c = cp d \<and> str_less cs ds))"

text \<open>
  \<^verbatim>\<open>a > b\<close>, \<^verbatim>\<open>a <= b\<close> and \<^verbatim>\<open>a >= b\<close>: defined between two integers and between two
  strings, \<^verbatim>\<open>TypeError\<close> otherwise (in particular against \<^verbatim>\<open>None\<close>).
\<close>

fun py_gt :: "atom \<Rightarrow> atom \<Rightarrow> error + bool" where
  "py_gt (AInt a) (AInt b) = Inr (b < a)"
| "py_gt (AStr a) (AStr b) = Inr (str_less b a)"
| "py_gt _ _ = Inl TypeError"

fun py_le :: "atom \<Rightarrow> atom \<Rightarrow> error + bool" where
  "py_le (AInt a) (AInt b) = Inr (a \<le> b)"
| "py_le (AStr a) (AStr b) = Inr (\<not> str_less b a)"
| "py_le _ _ = Inl TypeError"

fun py_ge :: "atom \<Rightarrow> atom \<Rightarrow> error + bool" where
  "py_ge (AInt a) (AInt b) = Inr (b \<le> a)"
| "py_ge (AStr a) (AStr b) = Inr (\<not> str_less a b)"
| "py_ge _ _ = Inl TypeError"

section \<open>Searching the tree\<close>

text \<open>
  \<^verbatim>\<open>soup.find(f)\<close> and \<^verbatim>\<open>soup.find_all(f)\<close> call \<open>f\<close> on the tags below the document
  in document order; an exception raised by \<open>f\<close> ends the search.
\<close>

fun find_first :: "(elem \<Rightarrow> error + bool) \<Rightarrow> elem list \<Rightarrow> error + elem option" where
  "find_first f [] = Inr None"
| "find_first f (e # es) =
     (case f e of
        Inl err \<Rightarrow> Inl err
      | Inr b \<Rightarrow> if b then Inr (Some e) else find_first f es)"

fun find_all :: "(elem \<Rightarrow> error + bool) \<Rightarrow> elem list \<Rightarrow> error + elem list" where
  "find_all f [] = Inr []"
| "find_all f (e # es) =
     (case f e of
        Inl err \<Rightarrow> Inl err
      | Inr b \<Rightarrow>
          (case find_all f es of
             Inl err \<Rightarrow> Inl err
           | Inr rest \<Rightarrow> Inr (if b then e # rest else rest)))"

text \<open>A span tag whose \<^verbatim>\<open>page\<close> attribute is \<^verbatim>\<open>"1"\<close>.\<close>

definition span_page1 :: "node \<Rightarrow> bool" where
  "span_page1 tag = (tag_name tag = ''span'' \<and> get tag ''page'' = Some ''1'')"

section \<open>Title\<close>

definition MIN_TITLE_FONT_SIZE :: int where
  "MIN_TITLE_FONT_SIZE = 15"

definition is_title :: "elem \<Rightarrow> error + bool" where
  "is_title el =
     (if \<not> tag_name (fst el) = ''span'' \<or> get (fst el) ''page'' \<noteq> Some ''1'' then Inr False
      else
        (case get (fst el) ''font-size'' of
           None \<Rightarrow> Inr False
         | Some size' \<Rightarrow>
             (case py_int size' of
                Inl e \<Rightarrow> Inl e
              | Inr n \<Rightarrow> if n < MIN_TITLE_FONT_SIZE then Inr False else Inr True)))"

text \<open>A stage returns its outcome together with the context it leaves behind.\<close>

definition find_title :: "node \<Rightarrow> context \<Rightarrow> (error + string) \<times> context" where
  "find_title soup context =
     (case find_first is_title (descendants soup) of
        Inl e \<Rightarrow> (Inl e, context)
      | Inr None \<Rightarrow> (Inl InsufficientParser, context)
      | Inr (Some title) \<Rightarrow>
          (case tag_value title ''font-size'' True (Some cast_int) of
             Inl e \<Rightarrow> (Inl e, context)
           | Inr v \<Rightarrow>
               (Inr (normalize_str (text_of (fst title))), context(''title-size'' \<mapsto> v))))"

section \<open>Authors\<close>

definition is_namelike :: "elem \<Rightarrow> context \<Rightarrow> error + bool" where
  "is_namelike el context =
     (if \<not> tag_name (fst el) = ''span'' \<or> get (fst el) ''page'' \<noteq> Some ''1'' then Inr False
      else
       (case tag_value el ''top'' True (Some cast_int) of
          Inl e \<Rightarrow> Inl e
        | Inr top' \<Rightarrow>
           if top' = ANone then Inr False
           else
            (case context ''date-start'' of
               None \<Rightarrow> Inl KeyError
             | Some date_start \<Rightarrow>
                (case py_gt top' date_start of
                   Inl e \<Rightarrow> Inl e
                 | Inr is_gt \<Rightarrow>
                    if is_gt then Inr False
                    else
                     (case tag_value el ''font-size'' True (Some cast_int) of
                        Inl e \<Rightarrow> Inl e
                      | Inr size' \<Rightarrow>
                         if size' = ANone then Inr False
                         else
                          (case context ''date-size'' of
                             None \<Rightarrow> Inl KeyError
                           | Some date_size \<Rightarrow>
                              (case py_le size' date_size of
                                 Inl e \<Rightarrow> Inl e
                               | Inr is_le \<Rightarrow>
                                  if is_le then Inr False
                                  else
                                   (case context ''title-size'' of
                                      None \<Rightarrow> Inl KeyError
                                    | Some title_size \<Rightarrow>
                                       (case py_ge size' title_size of
                                          Inl e \<Rightarrow> Inl e
                                        | Inr is_ge \<Rightarrow>
                                           if is_ge then Inr False
                                           else
                                            (let content = strip (text_of (fst el))
                                             in if content = [] then Inr False
                                                else Inr (re_match RE_AUTHOR_NAME content \<noteq> None)))))))))))"

text \<open>
  The loop of \<^verbatim>\<open>find_authors\<close> over the tags that \<^verbatim>\<open>find_all\<close> returned. The search
  comes first, the test for the lone ligature AE (U+00C6) second; \<^verbatim>\<open>name.groups()\<close> on a failed
  search would raise \<^verbatim>\<open>AttributeError\<close>.
\<close>

fun authors_loop :: "elem list \<Rightarrow> string list \<Rightarrow> error + string list" where
  "authors_loop [] result = Inr result"
| "authors_loop (c # cs) result =
     (let found = re_search RE_AUTHOR_NAME (strip (text_of (fst c)))
      in if strip (text_of (fst c)) = [CHR 0xC6] then authors_loop cs result
         else
          (case found of
             None \<Rightarrow> Inl AttributeError
           | Some _ \<Rightarrow>
               if 3 \<le> ngroups RE_AUTHOR_NAME
               then
                 (let cleaned = strip (text_of (fst c))
                  in authors_loop cs
                       (result @
                          [case RE_PREFIX_SKIP_search cleaned of
                             None \<Rightarrow> cleaned
                           | Some rest \<Rightarrow> rest]))
               else authors_loop cs result))"

definition find_authors :: "node \<Rightarrow> context \<Rightarrow> (error + string list) \<times> context" where
  "find_authors soup context =
     (case find_all (\<lambda>t. is_namelike t context) (descendants soup) of
        Inl e \<Rightarrow> (Inl e, context)
      | Inr found \<Rightarrow>
          (case authors_loop found [] of
             Inl e \<Rightarrow> (Inl e, context)
           | Inr result \<Rightarrow>
               if 0 < length result then (Inr result, context)
               else (Inl InsufficientParser, context)))"

section \<open>Dates\<close>

text \<open>A Python dictionary with string keys, in insertion order.\<close>

fun dict_set :: "string \<Rightarrow> 'v \<Rightarrow> (string \<times> 'v) list \<Rightarrow> (string \<times> 'v) list" where
  "dict_set k v [] = [(k, v)]"
| "dict_set k v ((k', v') # d) = (if k' = k then (k, v) # d else (k', v') # dict_set k v d)"

definition phase_of :: "string \<Rightarrow> string" where
  "phase_of c =
     (if startswith (lower c) ''received'' then ''received''
      else if startswith (lower c) ''accepted'' then ''accepted''
      else if startswith (lower c) ''published'' then ''published''
      else ''published'')"

fun parse_dates_loop :: "string list \<Rightarrow> (string \<times> string) list \<Rightarrow> error + (string \<times> string) list" where
  "parse_dates_loop [] result = Inr result"
| "parse_dates_loop (c # cs) result =
     (case split CHR '':'' c of
        _ # v # _ \<Rightarrow> parse_dates_loop cs (dict_set (phase_of c) (strip v) result)
      | _ \<Rightarrow> Inl IndexError)"

definition parse_dates :: "string \<Rightarrow> error + (string \<times> string) list" where
  "parse_dates content = parse_dates_loop (map strip (split CHR ''/'' content)) []"

definition DATE_KEYWORDS :: "string list" where
  "DATE_KEYWORDS = [''received:'', ''accepted:'', ''published:'', ''published online:'']"

fun find_dates_loop :: "elem list \<Rightarrow> context \<Rightarrow> (error + (string \<times> string) list) \<times> context" where
  "find_dates_loop [] context = (Inl InsufficientParser, context)"
| "find_dates_loop (date # ds) context =
     (let content = strip (text_of (fst date)); lowered = lower content
      in case find (\<lambda>kw. startswith lowered kw) DATE_KEYWORDS of
           None \<Rightarrow> find_dates_loop ds context
         | Some kw \<Rightarrow>
            (case tag_value date ''top'' True (Some cast_int) of
               Inl e \<Rightarrow> (Inl e, context)
             | Inr top' \<Rightarrow>
                (case tag_value date ''font-size'' True (Some cast_int) of
                   Inl e \<Rightarrow> (Inl e, context(''date-start'' \<mapsto> top'))
                 | Inr size' \<Rightarrow>
                    (case find (\<lambda>it. kw = take (length kw) (lower it))
                            (split (CHR 0x0A) content) of
                       None \<Rightarrow>
                         (Inl StopIteration, context(''date-start'' \<mapsto> top', ''date-size'' \<mapsto> size'))
                     | Some line \<Rightarrow>
                         (case parse_dates line of
                            Inl e \<Rightarrow>
                              (Inl e, context(''date-start'' \<mapsto> top', ''date-size'' \<mapsto> size'))
                          | Inr d \<Rightarrow>
                              (Inr d, context(''date-start'' \<mapsto> top', ''date-size'' \<mapsto> size')))))))"

text \<open>\<^verbatim>\<open>soup.find_all("span", {"page": "1"})\<close> keeps the span tags whose page is \<^verbatim>\<open>"1"\<close>.\<close>

definition find_dates :: "node \<Rightarrow> context \<Rightarrow> (error + (string \<times> string) list) \<times> context" where
  "find_dates soup context =
     find_dates_loop (filter (\<lambda>e. span_page1 (fst e)) (descendants soup)) context"

section \<open>Value flattener\<close>

text \<open>
  The values a stage can return: \<^verbatim>\<open>None\<close>, scalars, lists, tuples and dictionaries with
  string keys (in insertion order, keys distinct). A field name is a string, a tuple of
  strings, or something else.
\<close>

datatype pyval =
    VNone
  | VInt int
  | VStr string
  | VList "pyval list"
  | VTuple "pyval list"
  | VDict "(string \<times> pyval) list"

datatype pyname = NStr string | NTuple "string list" | NOther

text \<open>
  \<open>frame\<close> is the row of the document in the data frame (column name to cell),
  \<open>structured\<close> the nested record. The row key and the parser name of the source are
  left out: the first is the same in every call, the second only appears in messages.
\<close>

type_synonym frame = "string \<rightharpoonup> pyval"
type_synonym structured = "string \<rightharpoonup> pyval"

definition separator :: string where
  "separator = ''.''"

text \<open>\<^verbatim>\<open>value.get(entry, None)\<close>.\<close>

definition dict_get :: "(string \<times> pyval) list \<Rightarrow> string \<Rightarrow> pyval" where
  "dict_get kvs k = (case map_of kvs k of None \<Rightarrow> VNone | Some v \<Rightarrow> v)"

text \<open>The last two branches of \<^verbatim>\<open>store_recursive\<close>: a value that is no list, tuple or dictionary.\<close>

definition store_scalar ::
  "frame \<times> structured \<Rightarrow> pyname \<Rightarrow> pyval \<Rightarrow> bool \<Rightarrow> error option \<times> (frame \<times> structured)" where
  "store_scalar st nm v table_only =
     (case nm of
        NStr n \<Rightarrow>
          (None, ((fst st)(n \<mapsto> v), if \<not> table_only then (snd st)(n \<mapsto> v) else snd st))
      | _ \<Rightarrow> (Some Exception, st))"

text \<open>
  \<^verbatim>\<open>store_recursive\<close> updates the frame and the record in place; the model returns them,
  with the exception if one was raised (what was written before it stays written).
  \<open>store_list\<close>, \<open>store_items\<close> and \<open>store_names\<close> are its three loops: over the
  elements of a list with their indices, over the entries of a dictionary, and over the
  names of a tuple name.
\<close>

function
  store_recursive ::
    "frame \<times> structured \<Rightarrow> pyname \<Rightarrow> pyval \<Rightarrow> bool \<Rightarrow> error option \<times> (frame \<times> structured)"
and store_list ::
    "frame \<times> structured \<Rightarrow> string \<Rightarrow> nat \<Rightarrow> pyval list \<Rightarrow> error option \<times> (frame \<times> structured)"
and store_items ::
    "frame \<times> structured \<Rightarrow> string \<Rightarrow> (string \<times> pyval) list \<Rightarrow> error option \<times> (frame \<times> structured)"
and store_names ::
    "frame \<times> structured \<Rightarrow> string list \<Rightarrow> (string \<times> pyval) list \<Rightarrow> bool \<Rightarrow>
       error option \<times> (frame \<times> structured)"
where
  "store_recursive st nm VNone table_only = (None, st)"
| "store_recursive st nm (VInt i) table_only = store_scalar st nm (VInt i) table_only"
| "store_recursive st nm (VStr s) table_only = store_scalar st nm (VStr s) table_only"
| "store_recursive st nm (VTuple vs) table_only =
     (case nm of
        NStr n \<Rightarrow>
          (case store_list ((fst st)(n @ separator @ ''length'' \<mapsto> VInt (int (length vs))), snd st)
                  n 0 vs of
             (Some e, st') \<Rightarrow> (Some e, st')
           | (None, st') \<Rightarrow>
               (None, if \<not> table_only then (fst st', (snd st')(n \<mapsto> VList vs)) else st'))
      | _ \<Rightarrow> (Some AssertionError, st))"
| "store_recursive st nm (VList vs) table_only =
     (case nm of
        NStr n \<Rightarrow>
          (case store_list ((fst st)(n @ separator @ ''length'' \<mapsto> VInt (int (length vs))), snd st)
                  n 0 vs of
             (Some e, st') \<Rightarrow> (Some e, st')
           | (None, st') \<Rightarrow>
               (None, if \<not> table_only then (fst st', (snd st')(n \<mapsto> VList vs)) else st'))
      | _ \<Rightarrow> (Some AssertionError, st))"
| "store_recursive st nm (VDict kvs) table_only =
     (case nm of
        NTuple names \<Rightarrow> store_names st names kvs table_only
      | NStr n \<Rightarrow>
          (case store_items st n kvs of
             (Some e, st') \<Rightarrow> (Some e, st')
           | (None, st') \<Rightarrow>
               (None, if \<not> table_only then (fst st', (snd st')(n \<mapsto> VDict kvs)) else st'))
      | NOther \<Rightarrow> (Some AssertionError, st))"
| "store_list st n i [] = (None, st)"
| "store_list st n i (entry # vs) =
     (case store_recursive st (NStr (n @ separator @ str_nat i)) entry True of
        (Some e, st') \<Rightarrow> (Some e, st')
      | (None, st') \<Rightarrow> store_list st' n (Suc i) vs)"
| "store_items st n [] = (None, st)"
| "store_items st n (kv # kvs) =
     (case store_recursive st (NStr (n @ separator @ fst kv)) (snd kv) True of
        (Some e, st') \<Rightarrow> (Some e, st')
      | (None, st') \<Rightarrow> store_items st' n kvs)"
| "store_names st [] kvs table_only = (None, st)"
| "store_names st (entry # names) kvs table_only =
     (case store_recursive st (NStr entry) (dict_get kvs entry) True of
        (Some e, st') \<Rightarrow> (Some e, st')
      | (None, st') \<Rightarrow>
          store_names
            (if \<not> table_only then (fst st', (snd st')(entry \<mapsto> dict_get kvs entry)) else st')
            names kvs table_only)"
  by pat_completeness auto
termination
proof -
  have sz: "size (dict_get kvs k) \<le> size_list (size_prod (\<lambda>_. 0) size) kvs" for kvs k
    by (induction kvs) (auto simp: dict_get_def)
  show ?thesis
    by (relation "measures [
         (\<lambda>a. case a of
            Inl (Inl (st, nm, v, t)) \<Rightarrow> 2 * size v + 1
          | Inl (Inr (st, n, i, vs)) \<Rightarrow> 2 * size_list size vs + 2
          | Inr (Inl (st, n, kvs)) \<Rightarrow> 2 * size_list (size_prod (\<lambda>_. 0) size) kvs + 2
          | Inr (Inr (st, names, kvs, t)) \<Rightarrow> 2 * size_list (size_prod (\<lambda>_. 0) size) kvs + 2),
         (\<lambda>a. case a of
            Inr (Inr (st, names, kvs, t)) \<Rightarrow> length names
          | _ \<Rightarrow> 0)]")
       (auto simp: less_Suc_eq_le sz)
qed

section \<open>The per-document pipeline\<close>

text \<open>
  A parser takes the tree and the context and returns a value or raises; the context it
  leaves behind is part of the result. The three parsers of the source, with their results
  as flattener values.
\<close>

type_synonym parser = "node \<Rightarrow> context \<Rightarrow> (error + pyval) \<times> context"

definition title_parser :: parser where
  "title_parser soup context =
     (case find_title soup context of
        (Inl e, c) \<Rightarrow> (Inl e, c)
      | (Inr s, c) \<Rightarrow> (Inr (VStr s), c))"

definition dates_parser :: parser where
  "dates_parser soup context =
     (case find_dates soup context of
        (Inl e, c) \<Rightarrow> (Inl e, c)
      | (Inr d, c) \<Rightarrow> (Inr (VDict (map (\<lambda>kv. (fst kv, VStr (snd kv))) d)), c))"

definition authors_parser :: parser where
  "authors_parser soup context =
     (case find_authors soup context of
        (Inl e, c) \<Rightarrow> (Inl e, c)
      | (Inr names, c) \<Rightarrow> (Inr (VList (map VStr names)), c))"

definition PARSERS :: "(pyname \<times> parser) list" where
  "PARSERS =
     [(NStr ''title'', title_parser),
      (NTuple [''received'', ''accepted'', ''published''], dates_parser),
      (NStr ''authors'', authors_parser)]"

text \<open>
  What the loop of \<^verbatim>\<open>handle_sample\<close> reports for one parser: nothing when the value was
  stored, the "can't find" line for \<^verbatim>\<open>InsufficientParser\<close>, the error line with the
  traceback for any other exception.
\<close>

datatype report = Stored | CantFind | ErrorHandling error

definition report_of :: "error \<Rightarrow> report" where
  "report_of e = (if e = InsufficientParser then CantFind else ErrorHandling e)"

text \<open>
  The loop over the parsers. Both the parser call and \<^verbatim>\<open>store_recursive\<close> sit inside the
  \<^verbatim>\<open>try\<close>, whose handlers are \<^verbatim>\<open>except InsufficientParser\<close> and \<^verbatim>\<open>except Exception\<close>;
  either way the loop goes on with the next parser.
\<close>

fun run_parsers ::
  "(pyname \<times> parser) list \<Rightarrow> node \<Rightarrow> (frame \<times> structured) \<times> context \<times> report list \<Rightarrow>
     (frame \<times> structured) \<times> context \<times> report list" where
  "run_parsers [] soup s = s"
| "run_parsers (p # ps) soup (st, context, log) =
     (case snd p soup context of
        (Inl e, context') \<Rightarrow> run_parsers ps soup (st, context', log @ [report_of e])
      | (Inr v, context') \<Rightarrow>
          (case store_recursive st (fst p) v False of
             (None, st') \<Rightarrow> run_parsers ps soup (st', context', log @ [Stored])
           | (Some e, st') \<Rightarrow> run_parsers ps soup (st', context', log @ [report_of e])))"

text \<open>
  \<^verbatim>\<open>handle_sample\<close> once the tree is loaded and the document is not skipped: an empty
  frame, a record holding the document name, an empty context, then the loop.
\<close>

definition handle_sample_with ::
  "(pyname \<times> parser) list \<Rightarrow> string \<Rightarrow> node \<Rightarrow> (frame \<times> structured) \<times> context \<times> report list" where
  "handle_sample_with parsers key soup =
     run_parsers parsers soup
       ((Map.empty, [''document'' \<mapsto> VStr (key @ ''.pdf'')]), Map.empty, [])"

definition handle_sample :: "string \<Rightarrow> node \<Rightarrow> (frame \<times> structured) \<times> context \<times> report list" where
  "handle_sample key soup = handle_sample_with PARSERS key soup"

section \<open>Example documents for the stages\<close>

text \<open>
  A first page whose block at vertical position 50 holds four spans of size 12:
  \<^verbatim>\<open>", A. Author"\<close>, \<^verbatim>\<open>"Smith"\<close>, \<^verbatim>\<open>"J. Smith"\<close> and the single letter U+00C6 (the ligature AE); and a context in which the
  date line sits at position 100 with size 9 and the title has size 20.
\<close>

definition ex_doc_authors :: node where
  "ex_doc_authors =
     Tag ''[document]'' Map.empty
       [Tag ''div'' [''top'' \<mapsto> ''50'', ''page'' \<mapsto> ''1'']
          [Tag ''span'' [''font-size'' \<mapsto> ''12'', ''page'' \<mapsto> ''1''] [NavigableString '', A. Author''],
           Tag ''span'' [''font-size'' \<mapsto> ''12'', ''page'' \<mapsto> ''1''] [NavigableString ''Smith''],
           Tag ''span'' [''font-size'' \<mapsto> ''12'', ''page'' \<mapsto> ''1''] [NavigableString ''J. Smith''],
           Tag ''span'' [''font-size'' \<mapsto> ''12'', ''page'' \<mapsto> ''1''] [NavigableString [CHR 0xC6]]]]"

definition ex_context :: "context" where
  "ex_context = [''title-size'' \<mapsto> AInt 20, ''date-start'' \<mapsto> AInt 100, ''date-size'' \<mapsto> AInt 9]"


text \<open>A span of size 12 reading \<^verbatim>\<open>"J. Smith"\<close> at vertical position 100, where \<open>ex_context\<close> has the date line.\<close>

definition ex_doc_same_line :: node where
  "ex_doc_same_line =
     Tag ''[document]'' Map.empty
       [Tag ''div'' [''top'' \<mapsto> ''100'', ''page'' \<mapsto> ''1'']
          [Tag ''span'' [''font-size'' \<mapsto> ''12'', ''page'' \<mapsto> ''1''] [NavigableString ''J. Smith'']]]"

text \<open>A context as the title stage leaves it, with nothing from the dates stage.\<close>

definition ex_context_no_dates :: "context" where
  "ex_context_no_dates = [''title-size'' \<mapsto> AInt 20]"

section \<open>Notions used to state the properties of the dates stage\<close>

text \<open>The date keyword that the stripped, lower-cased text of a tag starts with, if any.\<close>

definition keyword_of :: "elem \<Rightarrow> string option" where
  "keyword_of date =
     find (\<lambda>kw. startswith (lower (strip (text_of (fst date)))) kw) DATE_KEYWORDS"

text \<open>The first line of a text.\<close>

definition first_line :: "string \<Rightarrow> string" where
  "first_line s = takeWhile (\<lambda>c. c \<noteq> CHR 0x0A) s"

text \<open>The segments of a date line: the pieces between slashes, stripped.\<close>

definition segments :: "string \<Rightarrow> string list" where
  "segments line = map strip (split CHR ''/'' line)"

text \<open>
  The text of a segment between its first colon and its next colon (or its end), which is
  what \<^verbatim>\<open>c.split(":")[1]\<close> selects when the segment has a colon.
\<close>

definition first_field :: "string \<Rightarrow> string" where
  "first_field seg =
     takeWhile (\<lambda>c. c \<noteq> CHR '':'') (drop 1 (dropWhile (\<lambda>c. c \<noteq> CHR '':'') seg))"

text \<open>
  Following the words of the specification instead: the value after the first colon of a
  segment, that is everything behind it.
\<close>

definition after_first_colon :: "string \<Rightarrow> string" where
  "after_first_colon seg = drop 1 (dropWhile (\<lambda>c. c \<noteq> CHR '':'') seg)"

subsection \<open>Example documents for the dates and title stages\<close>

text \<open>A date line as the specification gives it, in a span of size 9 at position 100.\<close>

definition ex_doc_dates :: node where
  "ex_doc_dates =
     Tag ''[document]'' Map.empty
       [Tag ''div'' [''top'' \<mapsto> ''100'', ''page'' \<mapsto> ''1'']
          [Tag ''span'' [''font-size'' \<mapsto> ''9'', ''page'' \<mapsto> ''1'']
             [NavigableString ''Received: 12 Jan 2020 / Accepted: 3 Mar 2020 / Published: 10 Apr 2020'']]]"

text \<open>A date line whose second segment has no colon.\<close>

definition ex_doc_bad_dates :: node where
  "ex_doc_bad_dates =
     Tag ''[document]'' Map.empty
       [Tag ''div'' [''top'' \<mapsto> ''100'', ''page'' \<mapsto> ''1'']
          [Tag ''span'' [''font-size'' \<mapsto> ''9'', ''page'' \<mapsto> ''1'']
             [NavigableString ''Received: 12 Jan 2020 / Online'']]]"

text \<open>A date line that gives a time of day.\<close>

definition ex_doc_time :: node where
  "ex_doc_time =
     Tag ''[document]'' Map.empty
       [Tag ''div'' [''top'' \<mapsto> ''100'', ''page'' \<mapsto> ''1'']
          [Tag ''span'' [''font-size'' \<mapsto> ''9'', ''page'' \<mapsto> ''1'']
             [NavigableString ''Received: 10:30 12 Jan 2020'']]]"

text \<open>
  A page number of size 9, then the title of size 16 over two lines, then a larger span.
\<close>

definition ex_doc_title :: node where
  "ex_doc_title =
     Tag ''[document]'' Map.empty
       [Tag ''div'' [''top'' \<mapsto> ''10'', ''page'' \<mapsto> ''1'']
          [Tag ''span'' [''font-size'' \<mapsto> ''9'', ''page'' \<mapsto> ''1''] [NavigableString ''1'']],
        Tag ''div'' [''top'' \<mapsto> ''30'', ''page'' \<mapsto> ''1'']
          [Tag ''span'' [''font-size'' \<mapsto> ''16'', ''page'' \<mapsto> ''1'']
             [NavigableString ''Fast Graph'', Tag ''br'' Map.empty [],
              NavigableString [CHR 0x0A], NavigableString '' Algorithms '']],
        Tag ''div'' [''top'' \<mapsto> ''60'', ''page'' \<mapsto> ''1'']
          [Tag ''span'' [''font-size'' \<mapsto> ''20'', ''page'' \<mapsto> ''1''] [NavigableString ''Later'']]]"

text \<open>A title span that has no \<^verbatim>\<open>font-size\<close> of its own inside a block of size 20.\<close>

definition ex_doc_inherited_title :: node where
  "ex_doc_inherited_title =
     Tag ''[document]'' Map.empty
       [Tag ''div'' [''font-size'' \<mapsto> ''20'', ''page'' \<mapsto> ''1'']
          [Tag ''span'' [''page'' \<mapsto> ''1''] [NavigableString ''Fast Graph Algorithms'']]]"

section \<open>Notions used to state the properties of the flattener\<close>

text \<open>A value that is no \<^verbatim>\<open>None\<close>, list, tuple or dictionary.\<close>

definition is_scalar :: "pyval \<Rightarrow> bool" where
  "is_scalar v = (case v of VInt _ \<Rightarrow> True | VStr _ \<Rightarrow> True | _ \<Rightarrow> False)"

definition is_str_name :: "pyname \<Rightarrow> bool" where
  "is_str_name nm = (case nm of NStr _ \<Rightarrow> True | _ \<Rightarrow> False)"



subsection \<open>Example values and parsers\<close>




text \<open>A parser that returns a scalar; declared under a tuple name it breaks the flattener's contract.\<close>

definition scalar_parser :: parser where
  "scalar_parser soup context = (Inr (VInt 1), context)"

definition ex_parsers :: "(pyname \<times> parser) list" where
  "ex_parsers = [(NTuple [''a'', ''b''], scalar_parser), (NStr ''title'', title_parser)]"

section \<open>Evaluation rules\<close>

lemmas str_eval =
  cp_def in_range_def is_py_space_def strip_def lower_def lower_char_def startswith_def
  digit_char_def is_digit_def digit_val_def int_unsigned_def py_int_def cast_int_def
  is_int_space_def int_strip_def MAX_STR_DIGITS_def
  char_of_eq_iff

section \<open>Properties of the attribute resolver\<close>



lemma tag_value_loop_own:
  "get tag a = Some v \<Longrightarrow> c v = Inr r \<Longrightarrow> truthy r \<Longrightarrow> tag_value_loop tag anc a (Some c) = Inr r"
  by (cases anc) (auto simp: priv_tag_value_def)

lemma tag_value_loop_total:
  "cast_ok c (tag # anc) a \<Longrightarrow>
     tag_value_loop tag anc a (Some c) = Inr (nearest_truthy c (tag # anc) a)"
  by (induction anc arbitrary: tag)
     (auto simp: priv_tag_value_def cast_ok_def split: option.splits sum.splits)

lemma tag_value_loop_cases:
  "case tag_value_loop tag anc a (Some c) of
     Inl e \<Rightarrow> True
   | Inr r \<Rightarrow> r = nearest_truthy c (tag # anc) a"
proof (induction anc arbitrary: tag)
  case Nil
  show ?case by (auto simp: priv_tag_value_def split: option.splits sum.splits)
next
  case (Cons p ps)
  show ?case using Cons[of p]
    by (auto simp: priv_tag_value_def split: option.splits sum.splits if_splits)
qed

lemma tag_value_loop_result:
  "tag_value_loop tag anc a (Some c) = Inr r \<Longrightarrow> r = nearest_truthy c (tag # anc) a"
  using tag_value_loop_cases [where tag = tag and anc = anc and a = a and c = c] by simp

lemma tag_value_loop_falsy:
  "get tag a = Some v \<Longrightarrow> c v = Inr r \<Longrightarrow> \<not> truthy r \<Longrightarrow>
     tag_value_loop tag anc a (Some c) =
       (case anc of [] \<Rightarrow> Inr ANone | p # ps \<Rightarrow> tag_value_loop p ps a (Some c))"
  by (cases anc) (auto simp: priv_tag_value_def)

lemma nearest_truthy_truthy:
  "nearest_truthy c chain a = ANone \<or> truthy (nearest_truthy c chain a)"
  by (induction chain) (auto split: option.splits sum.splits)

lemma pick_simps [simp]:
  "pick ANone b = b"
  "a \<noteq> ANone \<Longrightarrow> pick a b = a"
  "pick (pick a b) c = pick a (pick b c)"
  by (auto simp: pick_def)

lemma nearest_truthy_Cons:
  "nearest_truthy c (t # ts) k = pick (nearest_truthy c [t] k) (nearest_truthy c ts k)"
  by (auto simp: pick_def split: option.splits sum.splits)

lemma or_tag_value_cases:
  "a = ANone \<or> truthy a \<Longrightarrow>
     (case or_tag_value a tag k of
        Inl e \<Rightarrow> True
      | Inr b \<Rightarrow> (b = ANone \<or> truthy b) \<and> b = pick a (nearest_truthy cast_int [tag] k))"
  by (auto simp: or_tag_value_def priv_tag_value_def pick_def split: option.splits sum.splits)

lemma tag_rect_body_cases:
  assumes "rinv r"
  shows "case tag_rect_body r tag of
           Inl e \<Rightarrow> True
         | Inr r' \<Rightarrow> rinv r' \<and> r' = rect_picks r [tag]"
proof -
  have a: "case or_tag_value (rect_x r) tag ''left'' of Inl e \<Rightarrow> True
    | Inr b \<Rightarrow> (b = ANone \<or> truthy b) \<and> b = pick (rect_x r) (nearest_truthy cast_int [tag] ''left'')"
    using assms by (intro or_tag_value_cases) (simp add: rinv_def)
  have b: "case or_tag_value (rect_y r) tag ''top'' of Inl e \<Rightarrow> True
    | Inr b \<Rightarrow> (b = ANone \<or> truthy b) \<and> b = pick (rect_y r) (nearest_truthy cast_int [tag] ''top'')"
    using assms by (intro or_tag_value_cases) (simp add: rinv_def)
  have c: "case or_tag_value (rect_w r) tag ''width'' of Inl e \<Rightarrow> True
    | Inr b \<Rightarrow> (b = ANone \<or> truthy b) \<and> b = pick (rect_w r) (nearest_truthy cast_int [tag] ''width'')"
    using assms by (intro or_tag_value_cases) (simp add: rinv_def)
  have d: "case or_tag_value (rect_h r) tag ''height'' of Inl e \<Rightarrow> True
    | Inr b \<Rightarrow> (b = ANone \<or> truthy b) \<and> b = pick (rect_h r) (nearest_truthy cast_int [tag] ''height'')"
    using assms by (intro or_tag_value_cases) (simp add: rinv_def)
  show ?thesis using a b c d
    by (simp add: tag_rect_body_def rinv_def rect_picks_def split: sum.splits)
qed

lemma tag_rect_body_total:
  assumes "rinv r" "cast_ok cast_int [tag] ''left''" "cast_ok cast_int [tag] ''top''"
    "cast_ok cast_int [tag] ''width''" "cast_ok cast_int [tag] ''height''"
  shows "\<not> isl (tag_rect_body r tag)"
  using assms
  by (auto simp: tag_rect_body_def or_tag_value_def priv_tag_value_def cast_ok_def
           split: sum.splits option.splits)

lemma rect_picks_step: "rect_picks (rect_picks r [t]) ts = rect_picks r (t # ts)"
  unfolding rect_picks_def
  by (simp add: nearest_truthy_Cons [of _ t ts] del: nearest_truthy.simps)

lemma rect_picks_full: "\<not> any_none r \<Longrightarrow> rect_picks r chain = r"
  by (simp add: rect_picks_def any_none_def)

lemma tag_rect_loop_cases:
  "rinv r \<Longrightarrow>
     (case tag_rect_loop r tag anc of
        Inl e \<Rightarrow> True
      | Inr r' \<Rightarrow> r' = rect_picks r (tag # anc))"
proof (induction anc arbitrary: r tag)
  case Nil
  then show ?case
    using tag_rect_body_cases [of r tag] by (auto simp: rect_picks_full split: sum.splits)
next
  case (Cons p ps)
  show ?case
  proof (cases "any_none r")
    case False
    then show ?thesis by (simp add: rect_picks_full)
  next
    case True
    show ?thesis
    proof (cases "tag_rect_body r tag")
      case (Inl e)
      then show ?thesis using True by simp
    next
      case (Inr r')
      then have r': "rinv r'" "r' = rect_picks r [tag]"
        using tag_rect_body_cases [of r tag] Cons.prems by auto
      from Cons.IH [OF r'(1), of p] show ?thesis
        using True Inr r'(2) by (auto simp: rect_picks_step split: sum.splits)
    qed
  qed
qed

lemma cast_ok_Cons: "cast_ok c (t # ts) k = (cast_ok c [t] k \<and> cast_ok c ts k)"
  by (simp add: cast_ok_def)

lemma tag_rect_loop_total:
  "rinv r \<Longrightarrow> cast_ok cast_int (tag # anc) ''left'' \<Longrightarrow> cast_ok cast_int (tag # anc) ''top'' \<Longrightarrow>
   cast_ok cast_int (tag # anc) ''width'' \<Longrightarrow> cast_ok cast_int (tag # anc) ''height'' \<Longrightarrow>
     \<not> isl (tag_rect_loop r tag anc)"
proof (induction anc arbitrary: r tag)
  case Nil
  then show ?case using tag_rect_body_total [of r tag] by simp
next
  case (Cons p ps)
  have here: "cast_ok cast_int [tag] ''left''" "cast_ok cast_int [tag] ''top''"
    "cast_ok cast_int [tag] ''width''" "cast_ok cast_int [tag] ''height''"
    using Cons.prems(2-5) by (simp_all add: cast_ok_def)
  have up: "cast_ok cast_int (p # ps) ''left''" "cast_ok cast_int (p # ps) ''top''"
    "cast_ok cast_int (p # ps) ''width''" "cast_ok cast_int (p # ps) ''height''"
    using Cons.prems(2-5) by (simp_all add: cast_ok_def)
  show ?case
  proof (cases "tag_rect_body r tag")
    case (Inl e)
    then show ?thesis using tag_rect_body_total [OF Cons.prems(1) here] by simp
  next
    case (Inr r')
    then have "rinv r'" using tag_rect_body_cases [of r tag] Cons.prems(1) by auto
    from Cons.IH [OF this up] show ?thesis using Inr by simp
  qed
qed

lemma rinv_none: "rinv \<lparr>rect_x = ANone, rect_y = ANone, rect_w = ANone, rect_h = ANone\<rparr>"
  by (simp add: rinv_def)


lemma descendants_ex_doc_zero:
  "descendants ex_doc_zero ! 1 =
     (Tag ''span'' [''top'' \<mapsto> ''0'', ''page'' \<mapsto> ''1''] [NavigableString ''abc''],
      [Tag ''div'' [''top'' \<mapsto> ''7'', ''left'' \<mapsto> ''3'', ''width'' \<mapsto> ''40'', ''height'' \<mapsto> ''9'']
         [Tag ''span'' [''top'' \<mapsto> ''0'', ''page'' \<mapsto> ''1''] [NavigableString ''abc'']],
       ex_doc_zero])"
  by (simp add: ex_doc_zero_def)




text \<open>
  C10. When the attribute is present on the node and its cast is falsy (\<^verbatim>\<open>int("0")\<close>), the
  resolver behaves as if the node did not have it: \<^verbatim>\<open>tag_value\<close> gives what resolving from
  the parent gives (\<^verbatim>\<open>None\<close> at the root); whenever \<^verbatim>\<open>tag_value\<close> and \<^verbatim>\<open>tag_rect\<close> return,
  each value is the nearest truthy cast along the chain or \<^verbatim>\<open>None\<close>, never a falsy value;
  and they do return when no cast along the chain raises. In \<open>ex_doc_zero\<close> the span has
  \<^verbatim>\<open>top\<close> \<^verbatim>\<open>"0"\<close> and its parent \<^verbatim>\<open>top\<close> \<^verbatim>\<open>"7"\<close>: both resolve the span's top to 7.
\<close>

theorem falsy_cast_counts_as_absent:
  "(get tag a = Some v \<longrightarrow> c v = Inr r \<longrightarrow> \<not> truthy r \<longrightarrow>
      tag_value (tag, anc) a True (Some c) =
        (case anc of [] \<Rightarrow> Inr ANone | p # ps \<Rightarrow> tag_value (p, ps) a True (Some c)))
   \<and> (tag_value (tag, anc) a True (Some c) = Inr r' \<longrightarrow>
        r' = nearest_truthy c (tag # anc) a \<and> (r' = ANone \<or> truthy r'))
   \<and> (cast_ok c (tag # anc) a \<longrightarrow>
        tag_value (tag, anc) a True (Some c) = Inr (nearest_truthy c (tag # anc) a))
   \<and> (tag_rect (tag, anc) = Inr rc \<longrightarrow>
        rc = \<lparr>rect_x = nearest_truthy cast_int (tag # anc) ''left'',
              rect_y = nearest_truthy cast_int (tag # anc) ''top'',
              rect_w = nearest_truthy cast_int (tag # anc) ''width'',
              rect_h = nearest_truthy cast_int (tag # anc) ''height''\<rparr>
        \<and> rinv rc)
   \<and> (cast_ok cast_int (tag # anc) ''left'' \<longrightarrow> cast_ok cast_int (tag # anc) ''top'' \<longrightarrow>
      cast_ok cast_int (tag # anc) ''width'' \<longrightarrow> cast_ok cast_int (tag # anc) ''height'' \<longrightarrow>
        \<not> isl (tag_rect (tag, anc)))
   \<and> tag_value (descendants ex_doc_zero ! 1) ''top'' True (Some cast_int) = Inr (AInt 7)
   \<and> tag_rect (descendants ex_doc_zero ! 1) =
        Inr \<lparr>rect_x = AInt 3, rect_y = AInt 7, rect_w = AInt 40, rect_h = AInt 9\<rparr>"
proof -
  have 1: "get tag a = Some v \<longrightarrow> c v = Inr r \<longrightarrow> \<not> truthy r \<longrightarrow>
      tag_value (tag, anc) a True (Some c) =
        (case anc of [] \<Rightarrow> Inr ANone | p # ps \<Rightarrow> tag_value (p, ps) a True (Some c))"
    using tag_value_loop_falsy [of tag a v c r anc]
    by (auto simp: tag_value_def split: list.splits)
  have 2: "tag_value (tag, anc) a True (Some c) = Inr r' \<longrightarrow>
        r' = nearest_truthy c (tag # anc) a \<and> (r' = ANone \<or> truthy r')"
    using tag_value_loop_result [of tag anc a c r'] nearest_truthy_truthy [of c "tag # anc" a]
    by (auto simp: tag_value_def)
  have 3: "cast_ok c (tag # anc) a \<longrightarrow>
        tag_value (tag, anc) a True (Some c) = Inr (nearest_truthy c (tag # anc) a)"
    by (simp add: tag_value_def tag_value_loop_total)
  have 4: "tag_rect (tag, anc) = Inr rc \<longrightarrow>
        rc = \<lparr>rect_x = nearest_truthy cast_int (tag # anc) ''left'',
              rect_y = nearest_truthy cast_int (tag # anc) ''top'',
              rect_w = nearest_truthy cast_int (tag # anc) ''width'',
              rect_h = nearest_truthy cast_int (tag # anc) ''height''\<rparr>
        \<and> rinv rc"
  proof
    assume a: "tag_rect (tag, anc) = Inr rc"
    then have "rc = rect_picks \<lparr>rect_x = ANone, rect_y = ANone, rect_w = ANone, rect_h = ANone\<rparr> (tag # anc)"
      using tag_rect_loop_cases [OF rinv_none, of tag anc] by (simp add: tag_rect_def)
    then have rc: "rc = \<lparr>rect_x = nearest_truthy cast_int (tag # anc) ''left'',
              rect_y = nearest_truthy cast_int (tag # anc) ''top'',
              rect_w = nearest_truthy cast_int (tag # anc) ''width'',
              rect_h = nearest_truthy cast_int (tag # anc) ''height''\<rparr>"
      by (simp add: rect_picks_def del: nearest_truthy.simps)
    have "rinv rc"
      unfolding rc rinv_def
      using nearest_truthy_truthy [of cast_int "tag # anc"]
      by (simp del: nearest_truthy.simps)
    with rc show "rc = \<lparr>rect_x = nearest_truthy cast_int (tag # anc) ''left'',
              rect_y = nearest_truthy cast_int (tag # anc) ''top'',
              rect_w = nearest_truthy cast_int (tag # anc) ''width'',
              rect_h = nearest_truthy cast_int (tag # anc) ''height''\<rparr> \<and> rinv rc"
      by blast
  qed
  have 5: "cast_ok cast_int (tag # anc) ''left'' \<longrightarrow> cast_ok cast_int (tag # anc) ''top'' \<longrightarrow>
      cast_ok cast_int (tag # anc) ''width'' \<longrightarrow> cast_ok cast_int (tag # anc) ''height'' \<longrightarrow>
        \<not> isl (tag_rect (tag, anc))"
    using tag_rect_loop_total [OF rinv_none, of tag anc] by (simp add: tag_rect_def)
  have 6: "tag_value (descendants ex_doc_zero ! 1) ''top'' True (Some cast_int) = Inr (AInt 7)"
    by (simp add: descendants_ex_doc_zero tag_value_def priv_tag_value_def ex_doc_zero_def str_eval)
  have 7: "tag_rect (descendants ex_doc_zero ! 1) =
        Inr \<lparr>rect_x = AInt 3, rect_y = AInt 7, rect_w = AInt 40, rect_h = AInt 9\<rparr>"
    by (simp add: descendants_ex_doc_zero tag_rect_def tag_rect_body_def or_tag_value_def
          any_none_def priv_tag_value_def ex_doc_zero_def str_eval)
  from 1 2 3 4 5 6 7 show ?thesis by blast
qed


theorem falsy_cast_counts_as_absent_witness:
  "get (Tag ''span'' [''top'' \<mapsto> ''0''] []) ''top'' = Some ''0''
   \<and> cast_int ''0'' = Inr (AInt 0) \<and> \<not> truthy (AInt 0)
   \<and> tag_value (Tag ''span'' [''top'' \<mapsto> ''0''] [],
        [Tag ''div'' [''top'' \<mapsto> ''7'', ''left'' \<mapsto> ''3'', ''width'' \<mapsto> ''40'', ''height'' \<mapsto> ''9''] []])
        ''top'' True (Some cast_int)
      = tag_value (Tag ''div'' [''top'' \<mapsto> ''7'', ''left'' \<mapsto> ''3'', ''width'' \<mapsto> ''40'', ''height'' \<mapsto> ''9''] [], [])
        ''top'' True (Some cast_int)
   \<and> tag_value (Tag ''span'' [''top'' \<mapsto> ''0''] [],
        [Tag ''div'' [''top'' \<mapsto> ''7'', ''left'' \<mapsto> ''3'', ''width'' \<mapsto> ''40'', ''height'' \<mapsto> ''9''] []])
        ''top'' True (Some cast_int) = Inr (AInt 7)
   \<and> nearest_truthy cast_int [Tag ''span'' [''top'' \<mapsto> ''0''] [],
        Tag ''div'' [''top'' \<mapsto> ''7'', ''left'' \<mapsto> ''3'', ''width'' \<mapsto> ''40'', ''height'' \<mapsto> ''9''] []] ''top''
      = AInt 7
   \<and> tag_rect (Tag ''span'' [''top'' \<mapsto> ''0''] [],
        [Tag ''div'' [''top'' \<mapsto> ''7'', ''left'' \<mapsto> ''3'', ''width'' \<mapsto> ''40'', ''height'' \<mapsto> ''9''] []])
      = Inr \<lparr>rect_x = AInt 3, rect_y = AInt 7, rect_w = AInt 40, rect_h = AInt 9\<rparr>
   \<and> rinv \<lparr>rect_x = AInt 3, rect_y = AInt 7, rect_w = AInt 40, rect_h = AInt 9\<rparr>"
proof -
  let ?span = "Tag ''span'' [''top'' \<mapsto> ''0''] []"
  let ?div = "Tag ''div'' [''top'' \<mapsto> ''7'', ''left'' \<mapsto> ''3'', ''width'' \<mapsto> ''40'', ''height'' \<mapsto> ''9''] []"
  let ?rc = "\<lparr>rect_x = AInt 3, rect_y = AInt 7, rect_w = AInt 40, rect_h = AInt 9\<rparr>"
  have g: "get ?span ''top'' = Some ''0''" by simp
  have c: "cast_int ''0'' = Inr (AInt 0)" by (simp add: str_eval)
  have f: "\<not> truthy (AInt 0)" by simp
  have v: "tag_value (?span, [?div]) ''top'' True (Some cast_int) = Inr (AInt 7)"
    by (simp add: tag_value_def priv_tag_value_def str_eval)
  have r: "tag_rect (?span, [?div]) = Inr ?rc"
    by (simp add: tag_rect_def tag_rect_body_def or_tag_value_def any_none_def
          priv_tag_value_def str_eval)
  note inst = falsy_cast_counts_as_absent [where tag = "?span" and anc = "[?div]" and a = "''top''"
      and v = "''0''" and c = cast_int and r = "AInt 0" and r' = "AInt 7" and rc = "?rc"]
  from inst g c f have 1: "tag_value (?span, [?div]) ''top'' True (Some cast_int)
      = tag_value (?div, []) ''top'' True (Some cast_int)"
    by simp
  from inst v have 2: "nearest_truthy cast_int [?span, ?div] ''top'' = AInt 7"
    by metis
  from inst r have 3: "rinv ?rc"
    by blast
  from g c f 1 v 2 r 3 show ?thesis by blast
qed

section \<open>The name matcher\<close>

lemma plus_iter_subset:
  "(\<And>s r. r \<in> set (f s) \<Longrightarrow> set r \<subseteq> set s) \<Longrightarrow> r \<in> set (plus_iter f n s) \<Longrightarrow>
     set r \<subseteq> set s"
proof (induction n arbitrary: s r)
  case 0
  then show ?case by simp
next
  case (Suc n)
  from Suc.prems(2) obtain r1
    where r1: "r1 \<in> set (f s)" "r \<in> set (plus_iter f n r1) \<or> r = r1"
    by auto
  from Suc.prems(1) [OF r1(1)] have "set r1 \<subseteq> set s" .
  moreover have "set r \<subseteq> set r1"
    using r1(2) Suc.IH [OF Suc.prems(1), of r r1] by auto
  ultimately show ?case by blast
qed

text \<open>What is left after a match is made of characters of the input.\<close>

lemma rx_match_subset: "r' \<in> set (rx_match r s) \<Longrightarrow> set r' \<subseteq> set s"
proof (induction r arbitrary: s r')
  case (Cls p)
  then show ?case by (auto split: list.splits if_splits)
next
  case (Seq a b)
  then show ?case by fastforce
next
  case (Alt a b)
  then show ?case by fastforce
next
  case (Opt a)
  then show ?case by fastforce
next
  case (Plus a)
  then show ?case using plus_iter_subset [of "rx_match a" r' "length s" s] by auto
next
  case (Grp a)
  then show ?case by auto
qed

lemma plus_iter_Nil: "f s = [] \<Longrightarrow> plus_iter f n s = []"
  by (cases n) auto

lemma no_space_no_name:
  assumes "\<forall>c\<in>set s. \<not> RE_SPACE c"
  shows "rx_match RE_AUTHOR_NAME s = []"
proof -
  have tail: "rx_match (Plus (Grp (Seq (Cls RE_SPACE) (Plus (Cls RE_NAME_COMPONENT))))) t = []"
    if "set t \<subseteq> set s" for t
  proof -
    have "rx_match (Cls RE_SPACE) t = []" using that assms by (cases t) auto
    then show ?thesis by (simp add: plus_iter_Nil)
  qed
  have body: "rx_match (Grp (Seq (Plus (Cls RE_NAME_COMPONENT))
                   (Plus (Grp (Seq (Cls RE_SPACE) (Plus (Cls RE_NAME_COMPONENT))))))) t = []"
    if "set t \<subseteq> set s" for t
  proof -
    have "\<forall>u \<in> set (rx_match (Plus (Cls RE_NAME_COMPONENT)) t).
            rx_match (Plus (Grp (Seq (Cls RE_SPACE) (Plus (Cls RE_NAME_COMPONENT))))) u = []"
      using rx_match_subset [of _ "Plus (Cls RE_NAME_COMPONENT)" t] that tail by blast
    then show ?thesis by (simp del: rx_match.simps(5) add: rx_match.simps(2,6))
  qed
  have "\<forall>t \<in> set (rx_match (Opt RE_PREFIX_SKIP_body) s).
          rx_match (Grp (Seq (Plus (Cls RE_NAME_COMPONENT))
                   (Plus (Grp (Seq (Cls RE_SPACE) (Plus (Cls RE_NAME_COMPONENT))))))) t = []"
    using rx_match_subset [of _ "Opt RE_PREFIX_SKIP_body" s] body by blast
  then show ?thesis unfolding RE_AUTHOR_NAME_def
    by (simp only: rx_match.simps(2)) simp
qed



lemma find_authors_context: "snd (find_authors soup context) = context"
  by (simp add: find_authors_def split: sum.splits)



section \<open>The authors stage\<close>

lemma nearest_truthy_cast_int:
  "nearest_truthy cast_int chain a = ANone \<or>
   (\<exists>n. nearest_truthy cast_int chain a = AInt n \<and> n \<noteq> 0)"
  by (induction chain) (auto simp: cast_int_def split: option.splits sum.splits)

lemma tag_value_cast_int:
  "tag_value el a True (Some cast_int) = Inr v \<Longrightarrow> v = ANone \<or> (\<exists>n. v = AInt n \<and> n \<noteq> 0)"
  using tag_value_loop_result [of "fst el" "snd el" a cast_int v]
    nearest_truthy_cast_int [of "fst el # snd el" a]
  by (auto simp: tag_value_def)

lemma tag_value_loop_cast_int_error:
  "tag_value_loop tag anc a (Some cast_int) = Inl e \<Longrightarrow> e = ValueError"
  by (induction anc arbitrary: tag)
     (auto simp: priv_tag_value_def cast_int_def py_int_def Let_def
           split: option.splits sum.splits if_splits)

lemma tag_value_cast_int_error:
  "tag_value el a True (Some cast_int) = Inl e \<Longrightarrow> e = ValueError"
  using tag_value_loop_cast_int_error [of "fst el" "snd el" a e] by (simp add: tag_value_def)

lemma py_gt_int: "py_gt (AInt t) d = Inr b \<longleftrightarrow> (\<exists>n. d = AInt n \<and> b = (n < t))"
  by (cases d) auto

lemma py_le_int: "py_le (AInt t) d = Inr b \<longleftrightarrow> (\<exists>n. d = AInt n \<and> b = (t \<le> n))"
  by (cases d) auto

lemma py_ge_int: "py_ge (AInt t) d = Inr b \<longleftrightarrow> (\<exists>n. d = AInt n \<and> b = (n \<le> t))"
  by (cases d) auto

lemma empty_no_name: "re_match RE_AUTHOR_NAME [] = None"
  by (simp add: re_match_def no_space_no_name)

lemma is_namelike_iff:
  "is_namelike el ctx = Inr True \<longleftrightarrow>
     (span_page1 (fst el) \<and>
      (\<exists>t ds s dz tz.
         tag_value el ''top'' True (Some cast_int) = Inr (AInt t) \<and>
         ctx ''date-start'' = Some (AInt ds) \<and> t \<le> ds \<and>
         tag_value el ''font-size'' True (Some cast_int) = Inr (AInt s) \<and>
         ctx ''date-size'' = Some (AInt dz) \<and> dz < s \<and>
         ctx ''title-size'' = Some (AInt tz) \<and> s < tz) \<and>
      re_match RE_AUTHOR_NAME (strip (text_of (fst el))) \<noteq> None)"
proof (cases "span_page1 (fst el)")
  case False
  then show ?thesis by (auto simp: is_namelike_def span_page1_def)
next
  case sp: True
  show ?thesis
  proof (cases "tag_value el ''top'' True (Some cast_int)")
    case (Inl e)
    then show ?thesis using sp by (auto simp: is_namelike_def span_page1_def)
  next
    case (Inr tp)
    from tag_value_cast_int [OF Inr] consider "tp = ANone" | t where "tp = AInt t" by blast
    then show ?thesis
    proof cases
      case 1
      then show ?thesis using sp Inr by (auto simp: is_namelike_def span_page1_def)
    next
      case 2
      show ?thesis
      proof (cases "tag_value el ''font-size'' True (Some cast_int)")
        case (Inl e)
        then show ?thesis using sp Inr 2
          by (auto simp: is_namelike_def span_page1_def py_gt_int split: option.splits sum.splits)
      next
        case sz: (Inr sv)
        from tag_value_cast_int [OF sz] consider "sv = ANone" | s where "sv = AInt s" by blast
        then show ?thesis
        proof cases
          case 1
          then show ?thesis using sp Inr 2 sz
            by (auto simp: is_namelike_def span_page1_def py_gt_int split: option.splits sum.splits)
        next
          case s: 2
          show ?thesis using sp Inr 2 sz s
            by (auto simp: is_namelike_def span_page1_def py_gt_int py_le_int py_ge_int Let_def
                       empty_no_name
                     split: option.splits sum.splits)
        qed
      qed
    qed
  qed
qed

lemma descendants_ex_doc_same_line:
  "descendants ex_doc_same_line ! 1 =
     (Tag ''span'' [''font-size'' \<mapsto> ''12'', ''page'' \<mapsto> ''1''] [NavigableString ''J. Smith''],
      [Tag ''div'' [''top'' \<mapsto> ''100'', ''page'' \<mapsto> ''1'']
         [Tag ''span'' [''font-size'' \<mapsto> ''12'', ''page'' \<mapsto> ''1''] [NavigableString ''J. Smith'']],
       ex_doc_same_line])"
  by (simp add: ex_doc_same_line_def)

text \<open>
  C3, as the code has it. A tag is a candidate of the authors stage exactly when it is a
  span on page 1, its resolved top is less than \<^emph>\<open>or equal to\<close> the date anchor position of
  the context, its resolved font size lies strictly between the date anchor size and the
  title size, and its stripped text matches the name pattern. A span whose size equals
  either bound is not a candidate.
\<close>

theorem authors_candidate_filter:
  "(is_namelike el ctx = Inr True \<longleftrightarrow>
      (span_page1 (fst el) \<and>
       (\<exists>t ds s dz tz.
          tag_value el ''top'' True (Some cast_int) = Inr (AInt t) \<and>
          ctx ''date-start'' = Some (AInt ds) \<and> t \<le> ds \<and>
          tag_value el ''font-size'' True (Some cast_int) = Inr (AInt s) \<and>
          ctx ''date-size'' = Some (AInt dz) \<and> dz < s \<and>
          ctx ''title-size'' = Some (AInt tz) \<and> s < tz) \<and>
       re_match RE_AUTHOR_NAME (strip (text_of (fst el))) \<noteq> None))
   \<and> (tag_value el ''font-size'' True (Some cast_int) = Inr v \<longrightarrow>
        ctx ''date-size'' = Some v \<or> ctx ''title-size'' = Some v \<longrightarrow>
          is_namelike el ctx \<noteq> Inr True)"
proof -
  have "is_namelike el ctx \<noteq> Inr True"
    if "tag_value el ''font-size'' True (Some cast_int) = Inr v"
      "ctx ''date-size'' = Some v \<or> ctx ''title-size'' = Some v"
    using that by (auto simp: is_namelike_iff)
  then show ?thesis using is_namelike_iff [of el ctx] by blast
qed

theorem authors_candidate_filter_witness:
  "tag_value (descendants ex_doc_same_line ! 1) ''font-size'' True (Some cast_int) = Inr (AInt 12)
   \<and> (ex_context(''date-size'' \<mapsto> AInt 12)) ''date-size'' = Some (AInt 12)
   \<and> is_namelike (descendants ex_doc_same_line ! 1) (ex_context(''date-size'' \<mapsto> AInt 12)) \<noteq> Inr True"
proof -
  have a: "tag_value (descendants ex_doc_same_line ! 1) ''font-size'' True (Some cast_int) = Inr (AInt 12)"
    by (simp add: ex_doc_same_line_def tag_value_def priv_tag_value_def str_eval)
  have b: "(ex_context(''date-size'' \<mapsto> AInt 12)) ''date-size'' = Some (AInt 12)" by simp
  from a b authors_candidate_filter [where el = "descendants ex_doc_same_line ! 1"
      and ctx = "ex_context(''date-size'' \<mapsto> AInt 12)" and v = "AInt 12"]
  show ?thesis by blast
qed

text \<open>
  The claim as it was stated asks for a top strictly less than the date anchor position.
  In \<open>ex_doc_same_line\<close> the span resolves to top 100, which is the date anchor position
  of \<open>ex_context\<close>, and it is a candidate: the stage returns its text.
\<close>

theorem authors_candidate_same_position:
  "tag_value (descendants ex_doc_same_line ! 1) ''top'' True (Some cast_int) = Inr (AInt 100)
   \<and> ex_context ''date-start'' = Some (AInt 100)
   \<and> is_namelike (descendants ex_doc_same_line ! 1) ex_context = Inr True
   \<and> fst (find_authors ex_doc_same_line ex_context) = Inr [''J. Smith'']"
proof -
  have 1: "tag_value (descendants ex_doc_same_line ! 1) ''top'' True (Some cast_int) = Inr (AInt 100)"
    by (simp add: ex_doc_same_line_def tag_value_def priv_tag_value_def str_eval)
  have 2: "ex_context ''date-start'' = Some (AInt 100)" by (simp add: ex_context_def)
  have 3: "is_namelike (descendants ex_doc_same_line ! 1) ex_context = Inr True" by code_simp
  have 4: "fst (find_authors ex_doc_same_line ex_context) = Inr [''J. Smith'']" by code_simp
  from 1 2 3 4 show ?thesis by blast
qed

subsection \<open>The authors stage without the date anchor\<close>

lemma is_namelike_no_anchor:
  assumes "ctx ''date-start'' = None"
  shows "is_namelike el ctx =
     (if \<not> span_page1 (fst el) then Inr False
      else (case tag_value el ''top'' True (Some cast_int) of
              Inl e \<Rightarrow> Inl e
            | Inr v \<Rightarrow> if v = ANone then Inr False else Inl KeyError))"
  using assms by (auto simp: is_namelike_def span_page1_def split: sum.splits)

lemma find_all_all_false: "\<forall>e\<in>set es. f e = Inr False \<Longrightarrow> find_all f es = Inr []"
  by (induction es) auto

lemma find_all_first_error:
  "\<forall>e\<in>set pre. f e = Inr False \<Longrightarrow> f el = Inl err \<Longrightarrow> find_all f (pre @ el # post) = Inl err"
  by (induction pre) auto

lemma find_all_no_true:
  "\<forall>e\<in>set es. f e \<noteq> Inr True \<Longrightarrow>
     find_all f es = Inr [] \<or> (\<exists>e\<in>set es. \<exists>err. f e = Inl err \<and> find_all f es = Inl err)"
proof (induction es)
  case Nil
  then show ?case by simp
next
  case (Cons a es)
  show ?case
  proof (cases "f a")
    case (Inl err)
    then show ?thesis by auto
  next
    case (Inr b)
    with Cons.prems have b: "\<not> b" by auto
    from Cons.IH Cons.prems
    have "find_all f es = Inr [] \<or> (\<exists>e\<in>set es. \<exists>err. f e = Inl err \<and> find_all f es = Inl err)"
      by auto
    then show ?thesis using Inr b by auto
  qed
qed

lemma find_authors_no_anchor_cases:
  assumes "ctx ''date-start'' = None"
  shows "fst (find_authors soup ctx) = Inl InsufficientParser \<or>
         fst (find_authors soup ctx) = Inl KeyError \<or>
         fst (find_authors soup ctx) = Inl ValueError"
proof -
  have nt: "\<forall>e\<in>set (descendants soup). is_namelike e ctx \<noteq> Inr True"
    by (auto simp: is_namelike_no_anchor [of ctx, OF assms] split: sum.splits)
  from find_all_no_true [OF nt]
  consider "find_all (\<lambda>t. is_namelike t ctx) (descendants soup) = Inr []"
    | e err where "is_namelike e ctx = Inl err"
        "find_all (\<lambda>t. is_namelike t ctx) (descendants soup) = Inl err"
    by blast
  then show ?thesis
  proof cases
    case 1
    then show ?thesis by (simp add: find_authors_def)
  next
    case 2
    from 2(1) have "err = KeyError \<or> err = ValueError"
      by (auto simp: is_namelike_no_anchor [of ctx, OF assms] dest: tag_value_cast_int_error
               split: sum.splits if_splits)
    then show ?thesis using 2(2) by (auto simp: find_authors_def)
  qed
qed

lemma find_authors_no_anchor_insufficient:
  assumes "ctx ''date-start'' = None"
    "\<forall>el\<in>set (descendants soup).
       span_page1 (fst el) \<longrightarrow> tag_value el ''top'' True (Some cast_int) = Inr ANone"
  shows "fst (find_authors soup ctx) = Inl InsufficientParser"
proof -
  have "\<forall>e\<in>set (descendants soup). is_namelike e ctx = Inr False"
    using assms(2) by (auto simp: is_namelike_no_anchor [of ctx, OF assms(1)])
  then have "find_all (\<lambda>t. is_namelike t ctx) (descendants soup) = Inr []"
    by (rule find_all_all_false)
  then show ?thesis by (simp add: find_authors_def)
qed

lemma find_authors_no_anchor_keyerror:
  assumes "ctx ''date-start'' = None" "descendants soup = pre @ el # post"
    "\<forall>x\<in>set pre. span_page1 (fst x) \<longrightarrow> tag_value x ''top'' True (Some cast_int) = Inr ANone"
    "span_page1 (fst el)" "tag_value el ''top'' True (Some cast_int) = Inr (AInt t)"
  shows "fst (find_authors soup ctx) = Inl KeyError"
proof -
  have pre: "\<forall>e\<in>set pre. is_namelike e ctx = Inr False"
    using assms(3) by (auto simp: is_namelike_no_anchor [of ctx, OF assms(1)])
  have el: "is_namelike el ctx = Inl KeyError"
    using assms(4,5) by (simp add: is_namelike_no_anchor [of ctx, OF assms(1)])
  have "find_all (\<lambda>t. is_namelike t ctx) (descendants soup) = Inl KeyError"
    unfolding assms(2) using pre el by (rule find_all_first_error)
  then show ?thesis by (simp add: find_authors_def)
qed

lemma run_authors_failure:
  "fst (find_authors soup ctx) = Inl e \<Longrightarrow>
     run_parsers [(NStr ''authors'', authors_parser)] soup (st, ctx, log) =
       (st, ctx, log @ [report_of e])"
  using find_authors_context [of soup ctx]
  by (cases "find_authors soup ctx") (auto simp: authors_parser_def)

text \<open>
  C4, as the code has it. With a context that has no date anchor position, the authors
  stage never returns a value and leaves the context alone; the pipeline stores nothing
  for it and reports the failure. The failure is \<^verbatim>\<open>InsufficientParser\<close> when no span of
  page 1 resolves a top; when the first span of page 1 that resolves one is reached, the
  lookup of the missing context entry raises \<^verbatim>\<open>KeyError\<close> instead (and a top that is no
  integer raises \<^verbatim>\<open>ValueError\<close>).
\<close>

theorem authors_without_date_anchor:
  "ctx ''date-start'' = None \<longrightarrow>
     snd (find_authors soup ctx) = ctx
     \<and> (fst (find_authors soup ctx) = Inl InsufficientParser \<or>
        fst (find_authors soup ctx) = Inl KeyError \<or>
        fst (find_authors soup ctx) = Inl ValueError)
     \<and> (\<exists>e. fst (find_authors soup ctx) = Inl e \<and>
          run_parsers [(NStr ''authors'', authors_parser)] soup (st, ctx, log) =
            (st, ctx, log @ [report_of e]))
     \<and> ((\<forall>el\<in>set (descendants soup).
            span_page1 (fst el) \<longrightarrow> tag_value el ''top'' True (Some cast_int) = Inr ANone) \<longrightarrow>
          fst (find_authors soup ctx) = Inl InsufficientParser)
     \<and> (descendants soup = pre @ el # post \<longrightarrow>
        (\<forall>x\<in>set pre.
            span_page1 (fst x) \<longrightarrow> tag_value x ''top'' True (Some cast_int) = Inr ANone) \<longrightarrow>
        span_page1 (fst el) \<longrightarrow> tag_value el ''top'' True (Some cast_int) = Inr (AInt t) \<longrightarrow>
          fst (find_authors soup ctx) = Inl KeyError)"
proof
  assume a: "ctx ''date-start'' = None"
  have 1: "snd (find_authors soup ctx) = ctx" by (rule find_authors_context)
  have 2: "fst (find_authors soup ctx) = Inl InsufficientParser \<or>
        fst (find_authors soup ctx) = Inl KeyError \<or>
        fst (find_authors soup ctx) = Inl ValueError"
    by (rule find_authors_no_anchor_cases [of ctx, OF a])
  have 3: "\<exists>e. fst (find_authors soup ctx) = Inl e \<and>
          run_parsers [(NStr ''authors'', authors_parser)] soup (st, ctx, log) =
            (st, ctx, log @ [report_of e])"
    using 2 run_authors_failure [of soup ctx _ st log] by blast
  have 4: "(\<forall>el\<in>set (descendants soup).
            span_page1 (fst el) \<longrightarrow> tag_value el ''top'' True (Some cast_int) = Inr ANone) \<longrightarrow>
          fst (find_authors soup ctx) = Inl InsufficientParser"
    using find_authors_no_anchor_insufficient [of ctx, OF a] by blast
  have 5: "descendants soup = pre @ el # post \<longrightarrow>
        (\<forall>x\<in>set pre.
            span_page1 (fst x) \<longrightarrow> tag_value x ''top'' True (Some cast_int) = Inr ANone) \<longrightarrow>
        span_page1 (fst el) \<longrightarrow> tag_value el ''top'' True (Some cast_int) = Inr (AInt t) \<longrightarrow>
          fst (find_authors soup ctx) = Inl KeyError"
    using find_authors_no_anchor_keyerror [of ctx, OF a] by blast
  from 1 2 3 4 5 show "snd (find_authors soup ctx) = ctx
     \<and> (fst (find_authors soup ctx) = Inl InsufficientParser \<or>
        fst (find_authors soup ctx) = Inl KeyError \<or>
        fst (find_authors soup ctx) = Inl ValueError)
     \<and> (\<exists>e. fst (find_authors soup ctx) = Inl e \<and>
          run_parsers [(NStr ''authors'', authors_parser)] soup (st, ctx, log) =
            (st, ctx, log @ [report_of e]))
     \<and> ((\<forall>el\<in>set (descendants soup).
            span_page1 (fst el) \<longrightarrow> tag_value el ''top'' True (Some cast_int) = Inr ANone) \<longrightarrow>
          fst (find_authors soup ctx) = Inl InsufficientParser)
     \<and> (descendants soup = pre @ el # post \<longrightarrow>
        (\<forall>x\<in>set pre.
            span_page1 (fst x) \<longrightarrow> tag_value x ''top'' True (Some cast_int) = Inr ANone) \<longrightarrow>
        span_page1 (fst el) \<longrightarrow> tag_value el ''top'' True (Some cast_int) = Inr (AInt t) \<longrightarrow>
          fst (find_authors soup ctx) = Inl KeyError)"
    by blast
qed

text \<open>
  The theorem at two documents: \<open>ex_doc_inherit\<close>, where no tag defines a top, ends in
  \<^verbatim>\<open>InsufficientParser\<close>; \<open>ex_doc_same_line\<close>, whose span resolves top 100, ends in
  \<^verbatim>\<open>KeyError\<close>.
\<close>

theorem authors_without_date_anchor_witness:
  "ex_context_no_dates ''date-start'' = None
   \<and> fst (find_authors ex_doc_inherit ex_context_no_dates) = Inl InsufficientParser
   \<and> snd (find_authors ex_doc_inherit ex_context_no_dates) = ex_context_no_dates
   \<and> span_page1 (fst (descendants ex_doc_same_line ! 1))
   \<and> tag_value (descendants ex_doc_same_line ! 1) ''top'' True (Some cast_int) = Inr (AInt 100)
   \<and> fst (find_authors ex_doc_same_line ex_context_no_dates) = Inl KeyError"
proof -
  have a: "ex_context_no_dates ''date-start'' = None" by (simp add: ex_context_no_dates_def)
  have b: "\<forall>el\<in>set (descendants ex_doc_inherit).
            span_page1 (fst el) \<longrightarrow> tag_value el ''top'' True (Some cast_int) = Inr ANone"
    by (simp add: ex_doc_inherit_def span_page1_def tag_value_def priv_tag_value_def)
  have c: "descendants ex_doc_same_line =
      [hd (descendants ex_doc_same_line)] @ (descendants ex_doc_same_line ! 1) # []"
    by (simp add: ex_doc_same_line_def)
  have d: "\<forall>x\<in>set [hd (descendants ex_doc_same_line)].
            span_page1 (fst x) \<longrightarrow> tag_value x ''top'' True (Some cast_int) = Inr ANone"
    by (simp add: ex_doc_same_line_def span_page1_def)
  have e: "span_page1 (fst (descendants ex_doc_same_line ! 1))"
    by (simp add: ex_doc_same_line_def span_page1_def)
  have f: "tag_value (descendants ex_doc_same_line ! 1) ''top'' True (Some cast_int) = Inr (AInt 100)"
    by (simp add: ex_doc_same_line_def tag_value_def priv_tag_value_def str_eval)
  from a b authors_without_date_anchor [where ctx = ex_context_no_dates and soup = ex_doc_inherit]
  have 1: "fst (find_authors ex_doc_inherit ex_context_no_dates) = Inl InsufficientParser"
    "snd (find_authors ex_doc_inherit ex_context_no_dates) = ex_context_no_dates"
    by blast+
  from a c d e f
    authors_without_date_anchor [where ctx = ex_context_no_dates and soup = ex_doc_same_line
      and pre = "[hd (descendants ex_doc_same_line)]" and el = "descendants ex_doc_same_line ! 1"
      and post = "[]" and t = 100]
  have 2: "fst (find_authors ex_doc_same_line ex_context_no_dates) = Inl KeyError"
    by blast
  from a 1 e f 2 show ?thesis by blast
qed

text \<open>
  The claim as it was stated promises insufficient evidence and no other failure. On
  \<open>ex_doc_authors\<close>, with the context the title stage leaves and no date entries, the
  stage raises \<^verbatim>\<open>KeyError\<close>, which the pipeline reports as an error of the parser, not as
  a value it could not find. The whole pipeline shows the same on \<open>ex_doc_title\<close>, a
  document with a title and no date line: the title is stored, the dates are not found,
  and the authors parser ends in \<^verbatim>\<open>KeyError\<close>.
\<close>

theorem authors_without_date_anchor_keyerror:
  "ex_context_no_dates ''date-start'' = None
   \<and> ex_context_no_dates ''date-size'' = None
   \<and> fst (find_authors ex_doc_authors ex_context_no_dates) = Inl KeyError
   \<and> fst (find_authors ex_doc_authors ex_context_no_dates) \<noteq> Inl InsufficientParser
   \<and> report_of KeyError = ErrorHandling KeyError
   \<and> report_of KeyError \<noteq> CantFind
   \<and> snd (snd (handle_sample ''doc'' ex_doc_title)) = [Stored, CantFind, ErrorHandling KeyError]"
proof -
  have 1: "fst (find_authors ex_doc_authors ex_context_no_dates) = Inl KeyError" by code_simp
  have 2: "snd (snd (handle_sample ''doc'' ex_doc_title)) = [Stored, CantFind, ErrorHandling KeyError]"
    by code_simp
  from 1 2 show ?thesis by (simp add: ex_context_no_dates_def report_of_def)
qed

section \<open>The dates stage\<close>

lemma lower_char_newline: "lower_char c = CHR 0x0A \<longleftrightarrow> c = CHR 0x0A"
  by (auto simp: lower_char_def in_range_def cp_def char_of_eq_iff take_bit_eq_mod)

lemma split_hd: "\<exists>rest. split c s = takeWhile (\<lambda>x. x \<noteq> c) s # rest"
  by (induction s) (auto split: list.splits)

lemma take_takeWhile_prefix:
  assumes "take (length kw) xs = kw" "\<forall>x\<in>set kw. P x"
  shows "take (length kw) (takeWhile P xs) = kw"
proof -
  have "xs = kw @ drop (length kw) xs" using assms(1) by (metis append_take_drop_id)
  then have "takeWhile P xs = kw @ takeWhile P (drop (length kw) xs)"
    using assms(2) by (metis takeWhile_append2)
  then show ?thesis by simp
qed

lemma lower_first_line: "lower (first_line s) = first_line (lower s)"
  by (induction s) (auto simp: lower_def first_line_def lower_char_newline)

text \<open>
  The search for the matching line always ends at the first line: the text starts with
  the keyword, and no keyword contains a newline.
\<close>

lemma first_line_found:
  assumes "startswith (lower content) kw" "CHR 0x0A \<notin> set kw"
  shows "find (\<lambda>it. kw = take (length kw) (lower it)) (split (CHR 0x0A) content)
           = Some (first_line content)"
proof -
  obtain rest where r: "split (CHR 0x0A) content = first_line content # rest"
    using split_hd [of "CHR 0x0A" content] by (auto simp: first_line_def)
  have "take (length kw) (first_line (lower content)) = kw"
    unfolding first_line_def using assms
    by (intro take_takeWhile_prefix) (auto simp: startswith_def)
  then show ?thesis by (simp add: r lower_first_line)
qed

lemma keyword_of_no_newline: "keyword_of date = Some kw \<Longrightarrow> CHR 0x0A \<notin> set kw"
  by (auto simp: keyword_of_def DATE_KEYWORDS_def split: if_splits)

lemma keyword_of_startswith:
  "keyword_of date = Some kw \<Longrightarrow> startswith (lower (strip (text_of (fst date)))) kw"
  unfolding keyword_of_def by (metis (mono_tags, lifting) find_Some_iff)

lemma find_dates_loop_Cons:
  "find_dates_loop (date # ds) ctx =
     (case keyword_of date of
        None \<Rightarrow> find_dates_loop ds ctx
      | Some kw \<Rightarrow>
          (case tag_value date ''top'' True (Some cast_int) of
             Inl e \<Rightarrow> (Inl e, ctx)
           | Inr t \<Rightarrow>
               (case tag_value date ''font-size'' True (Some cast_int) of
                  Inl e \<Rightarrow> (Inl e, ctx(''date-start'' \<mapsto> t))
                | Inr s \<Rightarrow>
                    (parse_dates (first_line (strip (text_of (fst date)))),
                     ctx(''date-start'' \<mapsto> t, ''date-size'' \<mapsto> s)))))"
proof (cases "keyword_of date")
  case None
  then show ?thesis by (simp add: keyword_of_def)
next
  case (Some kw)
  have "find (\<lambda>it. kw = take (length kw) (lower it)) (split (CHR 0x0A) (strip (text_of (fst date))))
          = Some (first_line (strip (text_of (fst date))))"
    using keyword_of_startswith [OF Some] keyword_of_no_newline [OF Some]
    by (rule first_line_found)
  then show ?thesis using Some
    by (simp add: keyword_of_def split: sum.splits)
qed

lemma find_dates_loop_none:
  "\<forall>x\<in>set es. keyword_of x = None \<Longrightarrow> find_dates_loop es ctx = (Inl InsufficientParser, ctx)"
  by (induction es) (simp_all add: find_dates_loop_Cons del: find_dates_loop.simps(2))

lemma find_dates_loop_first:
  "\<forall>x\<in>set pre. keyword_of x = None \<Longrightarrow> keyword_of el = Some kw \<Longrightarrow>
   tag_value el ''top'' True (Some cast_int) = Inr t \<Longrightarrow>
   tag_value el ''font-size'' True (Some cast_int) = Inr s \<Longrightarrow>
     find_dates_loop (pre @ el # post) ctx =
       (parse_dates (first_line (strip (text_of (fst el)))),
        ctx(''date-start'' \<mapsto> t, ''date-size'' \<mapsto> s))"
  by (induction pre) (simp_all add: find_dates_loop_Cons del: find_dates_loop.simps(2))

lemma parse_dates_loop_error: "parse_dates_loop segs d = Inl e \<Longrightarrow> e = IndexError"
  by (induction segs arbitrary: d) (auto split: list.splits)

lemma parse_dates_error: "parse_dates line = Inl e \<Longrightarrow> e = IndexError"
  unfolding parse_dates_def by (rule parse_dates_loop_error)

text \<open>Every way the loop of the dates stage can end, with the context it leaves.\<close>

lemma find_dates_loop_outcomes:
  "(fst (find_dates_loop es ctx) = Inl InsufficientParser \<and> snd (find_dates_loop es ctx) = ctx)
   \<or> (fst (find_dates_loop es ctx) = Inl ValueError \<and>
       (snd (find_dates_loop es ctx) = ctx \<or>
        (\<exists>t. snd (find_dates_loop es ctx) = ctx(''date-start'' \<mapsto> t))))
   \<or> ((fst (find_dates_loop es ctx) = Inl IndexError \<or> (\<exists>d. fst (find_dates_loop es ctx) = Inr d)) \<and>
       (\<exists>t s. snd (find_dates_loop es ctx) = ctx(''date-start'' \<mapsto> t, ''date-size'' \<mapsto> s)))"
proof (induction es)
  case Nil
  then show ?case by simp
next
  case (Cons date ds)
  show ?case
  proof (cases "keyword_of date")
    case None
    then show ?thesis using Cons.IH
      by (simp add: find_dates_loop_Cons del: find_dates_loop.simps(2))
  next
    case (Some kw)
    show ?thesis
    proof (cases "tag_value date ''top'' True (Some cast_int)")
      case (Inl e)
      then show ?thesis using Some tag_value_cast_int_error [OF Inl]
        by (simp add: find_dates_loop_Cons del: find_dates_loop.simps(2))
    next
      case top: (Inr t)
      show ?thesis
      proof (cases "tag_value date ''font-size'' True (Some cast_int)")
        case (Inl e)
        have "find_dates_loop (date # ds) ctx = (Inl ValueError, ctx(''date-start'' \<mapsto> t))"
          using Some top Inl tag_value_cast_int_error [OF Inl]
          by (simp add: find_dates_loop_Cons del: find_dates_loop.simps(2))
        then show ?thesis unfolding fst_conv snd_conv by (simp only: fst_conv snd_conv) blast
      next
        case sz: (Inr s)
        have "parse_dates (first_line (strip (text_of (fst date)))) = Inl IndexError \<or>
              (\<exists>d. parse_dates (first_line (strip (text_of (fst date)))) = Inr d)"
          using parse_dates_error [of "first_line (strip (text_of (fst date)))"]
          by (cases "parse_dates (first_line (strip (text_of (fst date))))") auto
        moreover have "find_dates_loop (date # ds) ctx =
            (parse_dates (first_line (strip (text_of (fst date)))),
             ctx(''date-start'' \<mapsto> t, ''date-size'' \<mapsto> s))"
          using Some top sz by (simp add: find_dates_loop_Cons del: find_dates_loop.simps(2))
        ultimately show ?thesis by (simp only: fst_conv snd_conv) blast
      qed
    qed
  qed
qed

lemma find_title_failure_context: "fst (find_title soup ctx) = Inl e \<Longrightarrow> snd (find_title soup ctx) = ctx"
  by (auto simp: find_title_def split: sum.splits option.splits)

text \<open>
  C9, as the code has it. The title stage and the authors stage leave the context as it
  was whenever they fail. The dates stage leaves it as it was when it signals
  insufficient evidence; but it writes the anchor entries as soon as a keyword span is
  found, before the line is parsed, so when parsing fails (a segment without a colon,
  \<^verbatim>\<open>IndexError\<close>) the context keeps both \<^verbatim>\<open>date-start\<close> and \<^verbatim>\<open>date-size\<close>, and when the
  font size of the span cannot be cast the context keeps \<^verbatim>\<open>date-start\<close>.
\<close>

theorem context_after_failed_stage:
  "(fst (find_title soup ctx) = Inl e \<longrightarrow> snd (find_title soup ctx) = ctx)
   \<and> snd (find_authors soup ctx) = ctx
   \<and> (fst (find_dates soup ctx) = Inl InsufficientParser \<longrightarrow> snd (find_dates soup ctx) = ctx)
   \<and> (fst (find_dates soup ctx) = Inl IndexError \<longrightarrow>
        (\<exists>t s. snd (find_dates soup ctx) = ctx(''date-start'' \<mapsto> t, ''date-size'' \<mapsto> s)))
   \<and> (fst (find_dates soup ctx) = Inl e' \<longrightarrow>
        (e' = InsufficientParser \<and> snd (find_dates soup ctx) = ctx) \<or>
        (e' = ValueError \<and>
          (snd (find_dates soup ctx) = ctx \<or>
           (\<exists>t. snd (find_dates soup ctx) = ctx(''date-start'' \<mapsto> t)))) \<or>
        (e' = IndexError \<and>
          (\<exists>t s. snd (find_dates soup ctx) = ctx(''date-start'' \<mapsto> t, ''date-size'' \<mapsto> s))))"
proof -
  have 1: "fst (find_title soup ctx) = Inl e \<longrightarrow> snd (find_title soup ctx) = ctx"
    using find_title_failure_context by blast
  have 2: "snd (find_authors soup ctx) = ctx" by (rule find_authors_context)
  note o = find_dates_loop_outcomes [of "filter (\<lambda>e. span_page1 (fst e)) (descendants soup)" ctx]
  have 3: "fst (find_dates soup ctx) = Inl InsufficientParser \<longrightarrow> snd (find_dates soup ctx) = ctx"
    using o unfolding find_dates_def by auto
  have 4: "fst (find_dates soup ctx) = Inl IndexError \<longrightarrow>
        (\<exists>t s. snd (find_dates soup ctx) = ctx(''date-start'' \<mapsto> t, ''date-size'' \<mapsto> s))"
    using o unfolding find_dates_def by auto
  have 5: "fst (find_dates soup ctx) = Inl e' \<longrightarrow>
        (e' = InsufficientParser \<and> snd (find_dates soup ctx) = ctx) \<or>
        (e' = ValueError \<and>
          (snd (find_dates soup ctx) = ctx \<or>
           (\<exists>t. snd (find_dates soup ctx) = ctx(''date-start'' \<mapsto> t)))) \<or>
        (e' = IndexError \<and>
          (\<exists>t s. snd (find_dates soup ctx) = ctx(''date-start'' \<mapsto> t, ''date-size'' \<mapsto> s)))"
    using o unfolding find_dates_def by auto
  from 1 2 3 4 5 show ?thesis by blast
qed

theorem context_after_failed_stage_witness:
  "fst (find_title ex_doc_inherit Map.empty) = Inl InsufficientParser
   \<and> snd (find_title ex_doc_inherit Map.empty) = Map.empty
   \<and> fst (find_dates ex_doc_inherit Map.empty) = Inl InsufficientParser
   \<and> snd (find_dates ex_doc_inherit Map.empty) = Map.empty
   \<and> fst (find_dates ex_doc_bad_dates Map.empty) = Inl IndexError
   \<and> (\<exists>t s. snd (find_dates ex_doc_bad_dates Map.empty) = [''date-start'' \<mapsto> t, ''date-size'' \<mapsto> s])"
proof -
  have a: "fst (find_title ex_doc_inherit Map.empty) = Inl InsufficientParser" by code_simp
  have b: "fst (find_dates ex_doc_inherit Map.empty) = Inl InsufficientParser" by code_simp
  have c: "fst (find_dates ex_doc_bad_dates Map.empty) = Inl IndexError" by code_simp
  from a context_after_failed_stage [where soup = ex_doc_inherit and ctx = Map.empty
      and e = InsufficientParser]
  have 1: "snd (find_title ex_doc_inherit Map.empty) = Map.empty" by blast
  from b context_after_failed_stage [where soup = ex_doc_inherit and ctx = Map.empty]
  have 2: "snd (find_dates ex_doc_inherit Map.empty) = Map.empty" by blast
  from c context_after_failed_stage [where soup = ex_doc_bad_dates and ctx = Map.empty]
  have 3: "\<exists>t s. snd (find_dates ex_doc_bad_dates Map.empty) = [''date-start'' \<mapsto> t, ''date-size'' \<mapsto> s]"
    by blast
  from a 1 b 2 c 3 show ?thesis by blast
qed

text \<open>
  The claim as it was stated says that a failed stage leaves no entry behind. On
  \<open>ex_doc_bad_dates\<close> the dates stage finds the keyword span, then fails on the segment
  \<^verbatim>\<open>Online\<close>, which has no colon; the context, empty before, holds the anchor position 100
  and the anchor size 9 afterwards.
\<close>

theorem dates_failure_keeps_anchor:
  "fst (find_dates ex_doc_bad_dates Map.empty) = Inl IndexError
   \<and> snd (find_dates ex_doc_bad_dates Map.empty) ''date-start'' = Some (AInt 100)
   \<and> snd (find_dates ex_doc_bad_dates Map.empty) ''date-size'' = Some (AInt 9)"
proof -
  have 1: "fst (find_dates ex_doc_bad_dates Map.empty) = Inl IndexError" by code_simp
  have 2: "snd (find_dates ex_doc_bad_dates Map.empty) ''date-start'' = Some (AInt 100)" by code_simp
  have 3: "snd (find_dates ex_doc_bad_dates Map.empty) ''date-size'' = Some (AInt 9)" by code_simp
  from 1 2 3 show ?thesis by blast
qed

subsection \<open>Parsing the date line\<close>

lemma split_no_sep: "c \<notin> set s \<Longrightarrow> split c s = [s]"
  by (induction s) auto

lemma split_sep:
  "c \<in> set s \<Longrightarrow>
     split c s = takeWhile (\<lambda>x. x \<noteq> c) s # split c (drop 1 (dropWhile (\<lambda>x. x \<noteq> c) s))"
  by (induction s) (auto simp: split_no_sep split: list.splits)

lemma split_second:
  assumes "c \<in> set s"
  shows "\<exists>a more. split c s =
           a # takeWhile (\<lambda>x. x \<noteq> c) (drop 1 (dropWhile (\<lambda>x. x \<noteq> c) s)) # more"
proof -
  obtain more where "split c (drop 1 (dropWhile (\<lambda>x. x \<noteq> c) s)) =
      takeWhile (\<lambda>x. x \<noteq> c) (drop 1 (dropWhile (\<lambda>x. x \<noteq> c) s)) # more"
    using split_hd [of c "drop 1 (dropWhile (\<lambda>x. x \<noteq> c) s)"] by blast
  then show ?thesis using split_sep [OF assms] by simp
qed

lemma parse_dates_loop_Cons:
  "parse_dates_loop (c # cs) d =
     (if CHR '':'' \<in> set c
      then parse_dates_loop cs (dict_set (phase_of c) (strip (first_field c)) d)
      else Inl IndexError)"
proof (cases "CHR '':'' \<in> set c")
  case True
  from split_second [OF True] obtain a more
    where "split CHR '':'' c = a # first_field c # more"
    by (auto simp: first_field_def)
  then show ?thesis using True by simp
next
  case False
  then show ?thesis by (simp add: split_no_sep)
qed

lemma parse_dates_loop_eq:
  "parse_dates_loop segs d =
     (if \<forall>seg\<in>set segs. CHR '':'' \<in> set seg
      then Inr (foldl (\<lambda>d seg. dict_set (phase_of seg) (strip (first_field seg)) d) d segs)
      else Inl IndexError)"
proof (induction segs arbitrary: d)
  case Nil
  then show ?case by simp
next
  case (Cons c cs)
  show ?case
    by (simp only: parse_dates_loop_Cons Cons.IH) auto
qed

lemma map_of_dict_set: "map_of (dict_set k v d) = (map_of d)(k \<mapsto> v)"
  by (induction d) (auto simp: fun_eq_iff)

lemma map_of_foldl_dict_set:
  "map_of (foldl (\<lambda>d seg. dict_set (f seg) (g seg) d) d segs) =
     foldl (\<lambda>m seg. m(f seg \<mapsto> g seg)) (map_of d) segs"
  by (induction segs arbitrary: d) (simp_all add: map_of_dict_set)

lemma find_dates_first:
  assumes "filter (\<lambda>e. span_page1 (fst e)) (descendants soup) = pre @ el # post"
    "\<forall>x\<in>set pre. keyword_of x = None" "keyword_of el = Some kw"
    "tag_value el ''top'' True (Some cast_int) = Inr t"
    "tag_value el ''font-size'' True (Some cast_int) = Inr s"
  shows "find_dates soup ctx =
           (parse_dates (first_line (strip (text_of (fst el)))),
            ctx(''date-start'' \<mapsto> t, ''date-size'' \<mapsto> s))"
  unfolding find_dates_def assms(1)
  using assms(2-5) by (rule find_dates_loop_first)

text \<open>
  C2, as the code has it. The dates stage takes the first span of page 1 whose stripped,
  lower-cased text starts with a date keyword and parses the first line of its text: the
  line is split at slashes, each stripped segment is classified by its leading word
  (anything unrecognised counts as published), and the phase is mapped to the stripped
  text between the first colon of the segment and its next colon or its end; a later
  segment of the same phase replaces the earlier value. This is what the stage returns
  when every segment has a colon. On the line of the specification the result is
  received 12 Jan 2020, accepted 3 Mar 2020, published 10 Apr 2020.
\<close>

theorem dates_stage_result:
  "(filter (\<lambda>e. span_page1 (fst e)) (descendants soup) = pre @ el # post \<longrightarrow>
      (\<forall>x\<in>set pre. keyword_of x = None) \<longrightarrow> keyword_of el = Some kw \<longrightarrow>
      tag_value el ''top'' True (Some cast_int) = Inr t \<longrightarrow>
      tag_value el ''font-size'' True (Some cast_int) = Inr s \<longrightarrow>
        find_dates soup ctx =
          (parse_dates (first_line (strip (text_of (fst el)))),
           ctx(''date-start'' \<mapsto> t, ''date-size'' \<mapsto> s)))
   \<and> ((\<forall>seg\<in>set (segments line). CHR '':'' \<in> set seg) \<longrightarrow>
        parse_dates line =
          Inr (foldl (\<lambda>d seg. dict_set (phase_of seg) (strip (first_field seg)) d) []
                 (segments line)))
   \<and> (parse_dates line = Inr d \<longrightarrow>
        map_of d =
          foldl (\<lambda>m seg. m(phase_of seg \<mapsto> strip (first_field seg))) Map.empty (segments line))
   \<and> phase_of seg =
        (if startswith (lower seg) ''received'' then ''received''
         else if startswith (lower seg) ''accepted'' then ''accepted''
         else ''published'')
   \<and> parse_dates ''Received: 12 Jan 2020 / Accepted: 3 Mar 2020 / Published: 10 Apr 2020'' =
        Inr [(''received'', ''12 Jan 2020''), (''accepted'', ''3 Mar 2020''),
             (''published'', ''10 Apr 2020'')]
   \<and> fst (find_dates ex_doc_dates Map.empty) =
        Inr [(''received'', ''12 Jan 2020''), (''accepted'', ''3 Mar 2020''),
             (''published'', ''10 Apr 2020'')]"
proof -
  have 1: "filter (\<lambda>e. span_page1 (fst e)) (descendants soup) = pre @ el # post \<longrightarrow>
      (\<forall>x\<in>set pre. keyword_of x = None) \<longrightarrow> keyword_of el = Some kw \<longrightarrow>
      tag_value el ''top'' True (Some cast_int) = Inr t \<longrightarrow>
      tag_value el ''font-size'' True (Some cast_int) = Inr s \<longrightarrow>
        find_dates soup ctx =
          (parse_dates (first_line (strip (text_of (fst el)))),
           ctx(''date-start'' \<mapsto> t, ''date-size'' \<mapsto> s))"
    using find_dates_first [of soup pre el post kw t s ctx] by blast
  have eq: "parse_dates line =
        (if \<forall>seg\<in>set (segments line). CHR '':'' \<in> set seg
         then Inr (foldl (\<lambda>d seg. dict_set (phase_of seg) (strip (first_field seg)) d) []
                     (segments line))
         else Inl IndexError)"
    unfolding parse_dates_def segments_def by (rule parse_dates_loop_eq)
  have 2: "(\<forall>seg\<in>set (segments line). CHR '':'' \<in> set seg) \<longrightarrow>
        parse_dates line =
          Inr (foldl (\<lambda>d seg. dict_set (phase_of seg) (strip (first_field seg)) d) []
                 (segments line))"
    using eq by simp
  have 3: "parse_dates line = Inr d \<longrightarrow>
        map_of d =
          foldl (\<lambda>m seg. m(phase_of seg \<mapsto> strip (first_field seg))) Map.empty (segments line)"
  proof
    assume "parse_dates line = Inr d"
    then have "d = foldl (\<lambda>d seg. dict_set (phase_of seg) (strip (first_field seg)) d) []
                     (segments line)"
      unfolding eq by (simp split: if_splits)
    then show "map_of d =
          foldl (\<lambda>m seg. m(phase_of seg \<mapsto> strip (first_field seg))) Map.empty (segments line)"
      by (simp add: map_of_foldl_dict_set)
  qed
  have 4: "phase_of seg =
        (if startswith (lower seg) ''received'' then ''received''
         else if startswith (lower seg) ''accepted'' then ''accepted''
         else ''published'')"
    by (simp add: phase_of_def)
  have 5: "parse_dates ''Received: 12 Jan 2020 / Accepted: 3 Mar 2020 / Published: 10 Apr 2020'' =
        Inr [(''received'', ''12 Jan 2020''), (''accepted'', ''3 Mar 2020''),
             (''published'', ''10 Apr 2020'')]"
    by code_simp
  have 6: "fst (find_dates ex_doc_dates Map.empty) =
        Inr [(''received'', ''12 Jan 2020''), (''accepted'', ''3 Mar 2020''),
             (''published'', ''10 Apr 2020'')]"
    by code_simp
  from 1 2 3 4 5 6 show ?thesis by blast
qed

lemma spans_ex_doc_dates:
  "filter (\<lambda>e. span_page1 (fst e)) (descendants ex_doc_dates) = [] @ (descendants ex_doc_dates ! 1) # []"
  by (simp add: ex_doc_dates_def span_page1_def)

theorem dates_stage_result_witness:
  "keyword_of (descendants ex_doc_dates ! 1) = Some ''received:''
   \<and> tag_value (descendants ex_doc_dates ! 1) ''top'' True (Some cast_int) = Inr (AInt 100)
   \<and> tag_value (descendants ex_doc_dates ! 1) ''font-size'' True (Some cast_int) = Inr (AInt 9)
   \<and> find_dates ex_doc_dates Map.empty =
        (parse_dates (first_line (strip (text_of (fst (descendants ex_doc_dates ! 1))))),
         [''date-start'' \<mapsto> AInt 100, ''date-size'' \<mapsto> AInt 9])
   \<and> parse_dates ''Received: 1 Jan / Received: 2 Feb'' = Inr [(''received'', ''2 Feb'')]
   \<and> list_all (\<lambda>seg. CHR '':'' \<in> set seg) (segments ''Received: 1 Jan / Received: 2 Feb'')
   \<and> parse_dates ''Received: 1 Jan / Received: 2 Feb'' =
        Inr (foldl (\<lambda>d seg. dict_set (phase_of seg) (strip (first_field seg)) d) []
               (segments ''Received: 1 Jan / Received: 2 Feb''))
   \<and> map_of [(''received'', ''2 Feb'')] =
        foldl (\<lambda>m seg. m(phase_of seg \<mapsto> strip (first_field seg))) Map.empty
          (segments ''Received: 1 Jan / Received: 2 Feb'')"
proof -
  have k: "keyword_of (descendants ex_doc_dates ! 1) = Some ''received:''" by code_simp
  have t: "tag_value (descendants ex_doc_dates ! 1) ''top'' True (Some cast_int) = Inr (AInt 100)"
    by (simp add: ex_doc_dates_def tag_value_def priv_tag_value_def str_eval)
  have s: "tag_value (descendants ex_doc_dates ! 1) ''font-size'' True (Some cast_int) = Inr (AInt 9)"
    by (simp add: ex_doc_dates_def tag_value_def priv_tag_value_def str_eval)
  have p: "\<forall>x\<in>set []. keyword_of x = None" by simp
  have d: "parse_dates ''Received: 1 Jan / Received: 2 Feb'' = Inr [(''received'', ''2 Feb'')]"
    by code_simp
  from spans_ex_doc_dates p k t s
    dates_stage_result [where soup = ex_doc_dates and pre = "[]" and post = "[]"
      and el = "descendants ex_doc_dates ! 1" and kw = "''received:''" and t = "AInt 100"
      and s = "AInt 9" and ctx = Map.empty]
  have 1: "find_dates ex_doc_dates Map.empty =
        (parse_dates (first_line (strip (text_of (fst (descendants ex_doc_dates ! 1))))),
         [''date-start'' \<mapsto> AInt 100, ''date-size'' \<mapsto> AInt 9])"
    by blast
  from d dates_stage_result [where line = "''Received: 1 Jan / Received: 2 Feb''"
      and d = "[(''received'', ''2 Feb'')]"]
  have 2: "map_of [(''received'', ''2 Feb'')] =
        foldl (\<lambda>m seg. m(phase_of seg \<mapsto> strip (first_field seg))) Map.empty
          (segments ''Received: 1 Jan / Received: 2 Feb'')"
    by blast
  have h: "\<forall>seg\<in>set (segments ''Received: 1 Jan / Received: 2 Feb''). CHR '':'' \<in> set seg"
    by code_simp
  from h dates_stage_result [where line = "''Received: 1 Jan / Received: 2 Feb''"]
  have 3: "parse_dates ''Received: 1 Jan / Received: 2 Feb'' =
        Inr (foldl (\<lambda>d seg. dict_set (phase_of seg) (strip (first_field seg)) d) []
               (segments ''Received: 1 Jan / Received: 2 Feb''))"
    by blast
  from h have h': "list_all (\<lambda>seg. CHR '':'' \<in> set seg) (segments ''Received: 1 Jan / Received: 2 Feb'')"
    by (simp add: list_all_iff)
  from k t s 1 d h' 3 2 show ?thesis by blast
qed

text \<open>
  The claim as it was stated maps each phase to the value after the first colon of its
  segment, for every span that starts with a keyword. On \<open>ex_doc_time\<close> the text after the
  first colon is \<^verbatim>\<open>10:30 12 Jan 2020\<close> and the stage returns \<^verbatim>\<open>10\<close>; on
  \<open>ex_doc_bad_dates\<close> the span starts with \<^verbatim>\<open>received:\<close> and the stage returns no mapping at
  all, it raises \<^verbatim>\<open>IndexError\<close>.
\<close>

theorem dates_value_not_all_after_colon:
  "keyword_of (descendants ex_doc_time ! 1) = Some ''received:''
   \<and> strip (after_first_colon ''Received: 10:30 12 Jan 2020'') = ''10:30 12 Jan 2020''
   \<and> fst (find_dates ex_doc_time Map.empty) = Inr [(''received'', ''10'')]
   \<and> keyword_of (descendants ex_doc_bad_dates ! 1) = Some ''received:''
   \<and> fst (find_dates ex_doc_bad_dates Map.empty) = Inl IndexError"
proof -
  have 1: "keyword_of (descendants ex_doc_time ! 1) = Some ''received:''" by code_simp
  have 2: "strip (after_first_colon ''Received: 10:30 12 Jan 2020'') = ''10:30 12 Jan 2020''"
    by code_simp
  have 3: "fst (find_dates ex_doc_time Map.empty) = Inr [(''received'', ''10'')]" by code_simp
  have 4: "keyword_of (descendants ex_doc_bad_dates ! 1) = Some ''received:''" by code_simp
  have 5: "fst (find_dates ex_doc_bad_dates Map.empty) = Inl IndexError" by code_simp
  from 1 2 3 4 5 show ?thesis by blast
qed

section \<open>The title stage\<close>

lemma find_first_split:
  "\<forall>x\<in>set pre. f x = Inr False \<Longrightarrow> f el = Inr True \<Longrightarrow> find_first f (pre @ el # post) = Inr (Some el)"
  by (induction pre) auto

lemma find_first_none: "\<forall>x\<in>set es. f x = Inr False \<Longrightarrow> find_first f es = Inr None"
  by (induction es) auto

lemma is_title_iff:
  "is_title el = Inr True \<longleftrightarrow>
     (tag_name (fst el) = ''span'' \<and> get (fst el) ''page'' = Some ''1'' \<and>
      (\<exists>sz n. get (fst el) ''font-size'' = Some sz \<and> py_int sz = Inr n \<and> 15 \<le> n))"
  by (auto simp: is_title_def MIN_TITLE_FONT_SIZE_def split: option.splits sum.splits)

lemma find_title_found:
  assumes "descendants soup = pre @ el # post" "\<forall>x\<in>set pre. is_title x = Inr False"
    "is_title el = Inr True"
  shows "\<exists>sz n. get (fst el) ''font-size'' = Some sz \<and> py_int sz = Inr n \<and>
           find_title soup ctx =
             (Inr (normalize_str (text_of (fst el))), ctx(''title-size'' \<mapsto> AInt n))"
proof -
  from assms(3) obtain sz n
    where sz: "get (fst el) ''font-size'' = Some sz" "py_int sz = Inr n" "15 \<le> n"
    by (auto simp: is_title_iff)
  have "cast_int sz = Inr (AInt n)" "truthy (AInt n)" using sz by (simp_all add: cast_int_def)
  then have tv: "tag_value el ''font-size'' True (Some cast_int) = Inr (AInt n)"
    using tag_value_loop_own [of "fst el" "''font-size''" sz cast_int "AInt n" "snd el"] sz(1)
    by (simp add: tag_value_def)
  have "find_first is_title (descendants soup) = Inr (Some el)"
    unfolding assms(1) using assms(2,3) by (rule find_first_split)
  then have "find_title soup ctx =
             (Inr (normalize_str (text_of (fst el))), ctx(''title-size'' \<mapsto> AInt n))"
    using tv by (simp add: find_title_def)
  with sz show ?thesis by blast
qed

lemma find_title_missing:
  "\<forall>x\<in>set (descendants soup). is_title x = Inr False \<Longrightarrow>
     find_title soup ctx = (Inl InsufficientParser, ctx)"
  by (simp add: find_title_def find_first_none)

text \<open>
  C1, as the code has it. A tag qualifies as title when it is a span, its page is
  \<^verbatim>\<open>"1"\<close>, and it carries a \<^verbatim>\<open>font-size\<close> attribute of its own whose integer value is at
  least 15 (a font size set on an ancestor does not count). The title stage returns the
  whitespace-normalised text of the first tag in document order that qualifies and writes
  its font size into the context as \<^verbatim>\<open>title-size\<close>; when no tag qualifies it raises
  \<^verbatim>\<open>InsufficientParser\<close> and the context is unchanged. On \<open>ex_doc_title\<close> the page number of
  size 9 is passed over and the result is \<^verbatim>\<open>Fast Graph Algorithms\<close> with title size 16.
\<close>

theorem title_stage_first_large_span:
  "(is_title el = Inr True \<longleftrightarrow>
      (tag_name (fst el) = ''span'' \<and> get (fst el) ''page'' = Some ''1'' \<and>
       (\<exists>sz n. get (fst el) ''font-size'' = Some sz \<and> py_int sz = Inr n \<and> 15 \<le> n)))
   \<and> (descendants soup = pre @ el # post \<longrightarrow> (\<forall>x\<in>set pre. is_title x = Inr False) \<longrightarrow>
      is_title el = Inr True \<longrightarrow>
        (\<exists>sz n. get (fst el) ''font-size'' = Some sz \<and> py_int sz = Inr n \<and>
           find_title soup ctx =
             (Inr (normalize_str (text_of (fst el))), ctx(''title-size'' \<mapsto> AInt n))))
   \<and> ((\<forall>x\<in>set (descendants soup). is_title x = Inr False) \<longrightarrow>
        find_title soup ctx = (Inl InsufficientParser, ctx))
   \<and> fst (find_title ex_doc_title Map.empty) = Inr ''Fast Graph Algorithms''
   \<and> snd (find_title ex_doc_title Map.empty) ''title-size'' = Some (AInt 16)"
proof -
  have 1: "fst (find_title ex_doc_title Map.empty) = Inr ''Fast Graph Algorithms''" by code_simp
  have 2: "snd (find_title ex_doc_title Map.empty) ''title-size'' = Some (AInt 16)" by code_simp
  show ?thesis
    using is_title_iff [of el] find_title_found [of soup pre el post ctx]
      find_title_missing [of soup ctx] 1 2
    by blast
qed

theorem title_stage_first_large_span_witness:
  "is_title (descendants ex_doc_title ! 3) = Inr True
   \<and> list_all (\<lambda>x. is_title x = Inr False) (take 3 (descendants ex_doc_title))
   \<and> (\<exists>sz n. get (fst (descendants ex_doc_title ! 3)) ''font-size'' = Some sz \<and> py_int sz = Inr n \<and>
         find_title ex_doc_title Map.empty =
           (Inr (normalize_str (text_of (fst (descendants ex_doc_title ! 3)))),
            [''title-size'' \<mapsto> AInt n]))
   \<and> list_all (\<lambda>x. is_title x = Inr False) (descendants ex_doc_inherit)
   \<and> find_title ex_doc_inherit Map.empty = (Inl InsufficientParser, Map.empty)"
proof -
  have a: "descendants ex_doc_title =
      take 3 (descendants ex_doc_title) @ (descendants ex_doc_title ! 3) # drop 4 (descendants ex_doc_title)"
    by (simp add: ex_doc_title_def)
  have b: "\<forall>x\<in>set (take 3 (descendants ex_doc_title)). is_title x = Inr False"
    by (simp add: ex_doc_title_def is_title_def str_eval MIN_TITLE_FONT_SIZE_def)
  have c: "is_title (descendants ex_doc_title ! 3) = Inr True"
    by (simp add: ex_doc_title_def is_title_def str_eval MIN_TITLE_FONT_SIZE_def)
  have d: "\<forall>x\<in>set (descendants ex_doc_inherit). is_title x = Inr False"
    by (simp add: ex_doc_inherit_def is_title_def)
  from a b c
    title_stage_first_large_span [where soup = ex_doc_title and pre = "take 3 (descendants ex_doc_title)"
      and el = "descendants ex_doc_title ! 3" and post = "drop 4 (descendants ex_doc_title)"
      and ctx = Map.empty]
  have 1: "\<exists>sz n. get (fst (descendants ex_doc_title ! 3)) ''font-size'' = Some sz \<and> py_int sz = Inr n \<and>
         find_title ex_doc_title Map.empty =
           (Inr (normalize_str (text_of (fst (descendants ex_doc_title ! 3)))),
            [''title-size'' \<mapsto> AInt n])"
    by blast
  from d title_stage_first_large_span [where soup = ex_doc_inherit and ctx = Map.empty]
  have 2: "find_title ex_doc_inherit Map.empty = (Inl InsufficientParser, Map.empty)"
    by blast
  from b d have "list_all (\<lambda>x. is_title x = Inr False) (take 3 (descendants ex_doc_title))"
    "list_all (\<lambda>x. is_title x = Inr False) (descendants ex_doc_inherit)"
    by (simp_all add: list_all_iff)
  with c 1 2 show ?thesis by blast
qed

text \<open>
  The claim as it was stated speaks of the resolved font size. In \<open>ex_doc_inherited_title\<close>
  the only span is on page 1 and resolves, through its parent, to font size 20, which is
  above the minimum; the title stage does not take it and signals insufficient evidence.
\<close>

theorem title_stage_ignores_inherited_size:
  "tag_name (fst (descendants ex_doc_inherited_title ! 1)) = ''span''
   \<and> get (fst (descendants ex_doc_inherited_title ! 1)) ''page'' = Some ''1''
   \<and> tag_value (descendants ex_doc_inherited_title ! 1) ''font-size'' True (Some cast_int) = Inr (AInt 20)
   \<and> MIN_TITLE_FONT_SIZE \<le> 20
   \<and> fst (find_title ex_doc_inherited_title Map.empty) = Inl InsufficientParser"
proof -
  have 1: "tag_value (descendants ex_doc_inherited_title ! 1) ''font-size'' True (Some cast_int) = Inr (AInt 20)"
    by (simp add: ex_doc_inherited_title_def tag_value_def priv_tag_value_def str_eval)
  have 2: "fst (find_title ex_doc_inherited_title Map.empty) = Inl InsufficientParser" by code_simp
  from 1 2 show ?thesis by (simp add: ex_doc_inherited_title_def MIN_TITLE_FONT_SIZE_def)
qed

section \<open>The value flattener\<close>

lemma digit_char_simps:
  "digit_char 0 = CHR ''0''" "digit_char 1 = CHR ''1''" "digit_char 2 = CHR ''2''"
  "digit_char 3 = CHR ''3''" "digit_char 4 = CHR ''4''" "digit_char 5 = CHR ''5''"
  "digit_char 6 = CHR ''6''" "digit_char 7 = CHR ''7''" "digit_char 8 = CHR ''8''"
  "digit_char 9 = CHR ''9''"
  by (simp_all add: digit_char_def char_of_eq_iff)
























section \<open>The flattener's contract violation in the pipeline\<close>

lemma store_scalar_bad_name:
  "is_scalar v \<Longrightarrow> \<not> is_str_name nm \<Longrightarrow> store_recursive st nm v t = (Some Exception, st)"
  by (cases v; cases nm) (auto simp: is_scalar_def is_str_name_def store_scalar_def)

lemma run_parsers_bad_name:
  assumes "snd p soup ctx = (Inr v, ctx')" "is_scalar v" "\<not> is_str_name (fst p)"
  shows "run_parsers (p # ps) soup (st, ctx, log) =
           run_parsers ps soup (st, ctx', log @ [ErrorHandling Exception])"
  using assms store_scalar_bad_name [of v "fst p" st False]
  by (simp add: report_of_def)

text \<open>
  C7, as the code has it. Given a scalar value and a name that is not a string, the
  flattener raises a plain \<^verbatim>\<open>Exception\<close> and writes nothing. The call sits inside the
  \<^verbatim>\<open>try\<close> of the parser loop, so the exception is caught by \<^verbatim>\<open>except Exception\<close>: the
  failure is reported and the loop goes on with the next parser, keeping the context the
  parser left. With \<open>ex_parsers\<close>, whose first parser returns 1 under a tuple name, the run
  over \<open>ex_doc_title\<close> reports the error and then stores the title.
\<close>

theorem scalar_under_non_string_name:
  "(is_scalar v \<longrightarrow> \<not> is_str_name nm \<longrightarrow> store_recursive st nm v t = (Some Exception, st))
   \<and> (snd p soup ctx = (Inr v, ctx') \<longrightarrow> is_scalar v \<longrightarrow> \<not> is_str_name (fst p) \<longrightarrow>
        run_parsers (p # ps) soup (st, ctx, log) =
          run_parsers ps soup (st, ctx', log @ [ErrorHandling Exception]))
   \<and> snd (snd (handle_sample_with ex_parsers ''doc'' ex_doc_title)) = [ErrorHandling Exception, Stored]
   \<and> snd (fst (handle_sample_with ex_parsers ''doc'' ex_doc_title)) ''title'' =
        Some (VStr ''Fast Graph Algorithms'')"
proof -
  have 1: "snd (snd (handle_sample_with ex_parsers ''doc'' ex_doc_title)) = [ErrorHandling Exception, Stored]"
    by code_simp
  have 2: "snd (fst (handle_sample_with ex_parsers ''doc'' ex_doc_title)) ''title'' =
        Some (VStr ''Fast Graph Algorithms'')"
    by code_simp
  show ?thesis
    using store_scalar_bad_name [of v nm st t] run_parsers_bad_name [of p soup ctx v ctx' ps st log] 1 2
    by blast
qed

theorem scalar_under_non_string_name_witness:
  "is_scalar (VInt 1) \<and> \<not> is_str_name (NTuple [''a'', ''b''])
   \<and> store_recursive (Map.empty, Map.empty) (NTuple [''a'', ''b'']) (VInt 1) False =
        (Some Exception, Map.empty, Map.empty)
   \<and> snd (NTuple [''a'', ''b''], scalar_parser) ex_doc_title Map.empty = (Inr (VInt 1), Map.empty)
   \<and> run_parsers [(NTuple [''a'', ''b''], scalar_parser)] ex_doc_title
        ((Map.empty, Map.empty), Map.empty, []) =
        ((Map.empty, Map.empty), Map.empty, [ErrorHandling Exception])"
proof -
  have a: "is_scalar (VInt 1)" by (simp add: is_scalar_def)
  have b: "\<not> is_str_name (NTuple [''a'', ''b''])" by (simp add: is_str_name_def)
  have c: "snd (NTuple [''a'', ''b''], scalar_parser) ex_doc_title Map.empty = (Inr (VInt 1), Map.empty)"
    by (simp add: scalar_parser_def)
  have b': "\<not> is_str_name (fst (NTuple [''a'', ''b''], scalar_parser))" using b by simp
  from a b scalar_under_non_string_name [where v = "VInt 1" and nm = "NTuple [''a'', ''b'']"
      and st = "(Map.empty, Map.empty)" and t = False]
  have 1: "store_recursive (Map.empty, Map.empty) (NTuple [''a'', ''b'']) (VInt 1) False =
        (Some Exception, Map.empty, Map.empty)"
    by blast
  from a b' c scalar_under_non_string_name [where v = "VInt 1"
      and p = "(NTuple [''a'', ''b''], scalar_parser)" and soup = ex_doc_title and ctx = Map.empty
      and ctx' = Map.empty and ps = "[]" and st = "(Map.empty, Map.empty)" and log = "[]"]
  have "run_parsers [(NTuple [''a'', ''b''], scalar_parser)] ex_doc_title
        ((Map.empty, Map.empty), Map.empty, []) =
        run_parsers [] ex_doc_title ((Map.empty, Map.empty), Map.empty, [] @ [ErrorHandling Exception])"
    by blast
  then have 2: "run_parsers [(NTuple [''a'', ''b''], scalar_parser)] ex_doc_title
        ((Map.empty, Map.empty), Map.empty, []) =
        ((Map.empty, Map.empty), Map.empty, [ErrorHandling Exception])"
    by (simp only: run_parsers.simps(1) append_Nil)
  from a b 1 c 2 show ?thesis by blast
qed

text \<open>
  The claim as it was stated says that the error is not caught and the run over the
  document is aborted. In the run of \<open>ex_parsers\<close> over \<open>ex_doc_title\<close> the first parser's
  scalar meets the tuple name, the flattener raises, and the run continues: the report of
  the second parser is there and the title is in the record, next to the document name.
\<close>

theorem flattener_error_is_caught:
  "fst (store_recursive (Map.empty, Map.empty) (NTuple [''a'', ''b'']) (VInt 1) False) = Some Exception
   \<and> snd (snd (handle_sample_with ex_parsers ''doc'' ex_doc_title)) = [ErrorHandling Exception, Stored]
   \<and> snd (fst (handle_sample_with ex_parsers ''doc'' ex_doc_title)) ''title'' =
        Some (VStr ''Fast Graph Algorithms'')
   \<and> snd (fst (handle_sample_with ex_parsers ''doc'' ex_doc_title)) ''document'' =
        Some (VStr ''doc.pdf'')"
proof -
  have 1: "fst (store_recursive (Map.empty, Map.empty) (NTuple [''a'', ''b'']) (VInt 1) False) = Some Exception"
    by (simp add: store_scalar_def)
  have 2: "snd (snd (handle_sample_with ex_parsers ''doc'' ex_doc_title)) = [ErrorHandling Exception, Stored]"
    by code_simp
  have 3: "snd (fst (handle_sample_with ex_parsers ''doc'' ex_doc_title)) ''title'' =
        Some (VStr ''Fast Graph Algorithms'')"
    by code_simp
  have 4: "snd (fst (handle_sample_with ex_parsers ''doc'' ex_doc_title)) ''document'' =
        Some (VStr ''doc.pdf'')"
    by code_simp
  from 1 2 3 4 show ?thesis by blast
qed

end
